(* ===== verification/Prelude.thy ===== *)
theory Prelude
  imports Main "HOL-Library.Sublist"
begin

text \<open>
  Shared vocabulary of the attributer model: the types that name the program's
  state (location tables, the file system it reads, the cache), the Python
  exceptions the code can raise, and executable models of the Python built-ins
  the source calls (\<open>str.strip\<close>, \<open>str.replace\<close>, \<open>dict.get\<close>, f-string
  formatting of an optional value, iteration over the lines of a text file,
  \<open>int\<close> of a digit string).  Characters are Isabelle's 8-bit \<open>char\<close>, read
  as Latin-1 code points: for those characters the Unicode classes the source's
  regular expressions use (\<open>\s\<close>, \<open>\d\<close>) are exactly \<open>is_space\<close> and
  \<open>is_digit\<close> below.
\<close>

type_synonym loc_map = "string \<rightharpoonup> string"
type_synonym loc_cache = "string \<rightharpoonup> loc_map"

text \<open>The exceptions of the source that the model keeps as values.\<close>

datatype py_error =
    FileNotFoundError | PermissionError | IsADirectoryError
  | TypeError | AttributeError | KeyError

subsection \<open>Files\<close>

text \<open>
  What a path names: a regular file with its text, or a directory; the flag
  says whether the process may read it.  The file system maps paths to
  entries; \<open>contents\<close> maps paths to the text of readable files only.
\<close>

datatype file_entry = Regular bool string | Directory bool

type_synonym file_system = "string \<rightharpoonup> file_entry"
type_synonym contents = "string \<rightharpoonup> string"

text \<open>A regular file the process may read.\<close>

abbreviation text_file :: "string \<Rightarrow> file_entry" where
  "text_file content \<equiv> Regular True content"

text \<open>
  \<open>open(path, 'r')\<close>: the text of a readable regular file, or the
  \<open>OSError\<close> subclass Python raises.  The permission check comes first, so
  an unreadable directory raises \<open>PermissionError\<close>.
\<close>

definition open_file :: "file_system \<Rightarrow> string \<Rightarrow> py_error + string" where
  "open_file fs path =
     (case fs path of
        None \<Rightarrow> Inl FileNotFoundError
      | Some (Regular readable content) \<Rightarrow> if readable then Inr content else Inl PermissionError
      | Some (Directory readable) \<Rightarrow> if readable then Inl IsADirectoryError else Inl PermissionError)"

definition file_text :: "file_system \<Rightarrow> contents" where
  "file_text fs path = (case open_file fs path of Inr content \<Rightarrow> Some content | Inl _ \<Rightarrow> None)"

named_theorems py_simps "evaluation rules of the modelled Python built-ins"

subsection \<open>Character classes\<close>

definition is_digit :: "char \<Rightarrow> bool" where
  "is_digit c \<longleftrightarrow> c \<in> set ''0123456789''"

text \<open>\<open>str.isspace\<close> on code points below 256, which is also the class of \<open>\s\<close>.\<close>

definition is_space :: "char \<Rightarrow> bool" where
  "is_space c \<longleftrightarrow> c \<in> set [CHR 0x09, CHR 0x0A, CHR 0x0B, CHR 0x0C, CHR 0x0D,
     CHR 0x1C, CHR 0x1D, CHR 0x1E, CHR 0x1F, CHR 0x20, CHR 0x85, CHR 0xA0]"

subsection \<open>String built-ins\<close>

text \<open>\<open>s.strip()\<close>: drop whitespace at both ends.\<close>

definition strip :: "string \<Rightarrow> string" where
  "strip s = rev (dropWhile is_space (rev (dropWhile is_space s)))"

text \<open>\<open>d.get(k, default)\<close>.\<close>

definition dict_get :: "('k \<rightharpoonup> 'v) \<Rightarrow> 'k \<Rightarrow> 'v \<Rightarrow> 'v" where
  "dict_get m k d = (case m k of Some v \<Rightarrow> v | None \<Rightarrow> d)"

text \<open>\<open>f"{x}"\<close> for \<open>x\<close> a \<open>str\<close> or \<open>None\<close>.\<close>

fun py_str :: "string option \<Rightarrow> string" where
  "py_str None = ''None''"
| "py_str (Some s) = s"

text \<open>
  \<open>s.replace(old, new, count)\<close> for a non-empty \<open>old\<close>, the only case the
  source uses: scan left to right, replace non-overlapping occurrences, at most
  \<open>count\<close> of them (\<open>None\<close>: all of them).
\<close>

function replace_from :: "nat option \<Rightarrow> string \<Rightarrow> string \<Rightarrow> string \<Rightarrow> string" where
  "replace_from cnt old new s =
     (if s = [] \<or> old = [] \<or> cnt = Some 0 then s
      else if prefix old s
        then new @ replace_from (map_option (\<lambda>k. k - 1) cnt) old new (drop (length old) s)
      else hd s # replace_from cnt old new (tl s))"
  by pat_completeness auto
termination
  by (relation "measure (\<lambda>(cnt, old, new, s). length s)") auto

declare replace_from.simps [simp del]

definition py_replace :: "string \<Rightarrow> string \<Rightarrow> string \<Rightarrow> string" where
  "py_replace old new s = replace_from None old new s"

definition py_replace1 :: "string \<Rightarrow> string \<Rightarrow> string \<Rightarrow> string" where
  "py_replace1 old new s = replace_from (Some 1) old new s"

subsection \<open>Text files\<close>

text \<open>
  \<open>open(path, 'r')\<close> reads in universal-newline mode: \<open>\r\n\<close> and a lone
  \<open>\r\<close> are both translated to \<open>\n\<close> before the text reaches the program.
\<close>

fun universal_newlines :: "string \<Rightarrow> string" where
  "universal_newlines [] = []"
| "universal_newlines [c] = (if c = CHR 0x0D then [CHR 0x0A] else [c])"
| "universal_newlines (c # d # cs) =
     (if c = CHR 0x0D then CHR 0x0A # (if d = CHR 0x0A then universal_newlines cs else universal_newlines (d # cs))
      else c # universal_newlines (d # cs))"

text \<open>
  Iterating over the translated text yields its lines, each with its
  terminating newline (the last line may have none).
\<close>

function split_lines :: "string \<Rightarrow> string list" where
  "split_lines s =
     (if s = [] then []
      else (case dropWhile (\<lambda>c. c \<noteq> CHR ''\<newline>'') s of
              [] \<Rightarrow> [s]
            | _ # rest \<Rightarrow> (takeWhile (\<lambda>c. c \<noteq> CHR ''\<newline>'') s @ ''\<newline>'') # split_lines rest))"
  by pat_completeness auto
termination
proof (relation "measure length")
  fix s rest :: string and c :: char
  assume "dropWhile (\<lambda>c. c \<noteq> CHR ''\<newline>'') s = c # rest"
  then have "length (c # rest) \<le> length s"
    by (metis length_dropWhile_le)
  then show "(rest, s) \<in> measure length" by simp
qed simp

declare split_lines.simps [simp del]

text \<open>\<open>for line in open(path, 'r')\<close>: the lines of a file with content \<open>content\<close>.\<close>

definition read_lines :: "string \<Rightarrow> string list" where
  "read_lines content = split_lines (universal_newlines content)"

subsection \<open>Decimal numerals\<close>

text \<open>\<open>int(ds)\<close> for a string of ASCII digits.\<close>

definition digit_val :: "char \<Rightarrow> nat" where
  "digit_val c = of_char c - of_char CHR ''0''"

definition nat_of_digits :: "string \<Rightarrow> nat" where
  "nat_of_digits ds = foldl (\<lambda>n d. 10 * n + digit_val d) 0 ds"

text \<open>Decimal printing, the inverse used by the round-trip lemmas.\<close>

definition digit_chr :: "nat \<Rightarrow> char" where
  "digit_chr d = ''0123456789'' ! d"

fun show_nat :: "nat \<Rightarrow> string" where
  "show_nat n =
     (if n < 10 then [digit_chr n] else show_nat (n div 10) @ [digit_chr (n mod 10)])"

declare show_nat.simps [simp del]

subsection \<open>Lemmas on the built-ins\<close>

lemma open_file_Inr: "open_file fs p = Inr content \<longleftrightarrow> fs p = Some (text_file content)"
  by (auto simp: open_file_def split: option.split file_entry.split)

lemma open_file_text [simp]: "fs p = Some (text_file content) \<Longrightarrow> open_file fs p = Inr content"
  by (simp add: open_file_def)

lemma file_text_text [simp]: "fs p = Some (text_file content) \<Longrightarrow> file_text fs p = Some content"
  by (simp add: file_text_def)

lemma file_text_open [simp]: "open_file fs p = Inr content \<Longrightarrow> file_text fs p = Some content"
  by (simp add: file_text_def)

lemma open_file_None [simp]: "fs p = None \<Longrightarrow> open_file fs p = Inl FileNotFoundError"
  by (simp add: open_file_def)

lemma open_file_errors:
  "open_file fs p = Inl e \<Longrightarrow> e \<in> {FileNotFoundError, PermissionError, IsADirectoryError}"
  by (auto simp: open_file_def split: option.splits file_entry.splits if_splits)

lemma file_text_Some: "file_text fs p = Some content \<longleftrightarrow> open_file fs p = Inr content"
  by (cases "open_file fs p") (auto simp: file_text_def)

lemma file_text_None: "file_text fs p = None \<longleftrightarrow> (\<exists>e. open_file fs p = Inl e)"
  by (cases "open_file fs p") (auto simp: file_text_def)

lemma file_text_upd [simp]: "file_text (fs(p \<mapsto> text_file content)) = (file_text fs)(p \<mapsto> content)"
  by (rule ext) (simp add: file_text_def open_file_def)

lemma open_file_cases:
  obtains (readable) content where "open_file fs p = Inr content" "file_text fs p = Some content"
  | (failed) e where "open_file fs p = Inl e" "file_text fs p = None"
proof (cases "open_file fs p")
  case (Inl e)
  then show ?thesis using failed by (simp add: file_text_def)
next
  case (Inr content)
  then show ?thesis using readable by (simp add: file_text_def)
qed

lemma dict_get_empty [simp, py_simps]: "dict_get Map.empty k d = d"
  by (simp add: dict_get_def)

lemma dict_get_Some [simp, py_simps]: "m k = Some v \<Longrightarrow> dict_get m k d = v"
  and dict_get_None [simp, py_simps]: "m k = None \<Longrightarrow> dict_get m k d = d"
  by (simp_all add: dict_get_def)

lemma replace_from_zero: "replace_from (Some 0) old new s = s"
  by (simp add: replace_from.simps)

text \<open>Replacing one character everywhere, and only its first occurrence.\<close>

lemma py_replace_char [py_simps]:
  "py_replace [a] new s = concat (map (\<lambda>c. if c = a then new else [c]) s)"
  unfolding py_replace_def
proof (induction s)
  case Nil
  then show ?case by (simp add: replace_from.simps)
next
  case (Cons c s)
  then show ?case by (subst replace_from.simps) auto
qed

lemma py_replace1_char [py_simps]:
  "py_replace1 [a] new s =
     (if a \<in> set s then takeWhile (\<lambda>c. c \<noteq> a) s @ new @ tl (dropWhile (\<lambda>c. c \<noteq> a) s) else s)"
  unfolding py_replace1_def
proof (induction s)
  case Nil
  then show ?case by (simp add: replace_from.simps)
next
  case (Cons c s)
  then show ?case by (subst replace_from.simps) (auto simp: replace_from_zero)
qed

lemma append_Cons_eq_snoc:
  "xs @ y # ys = zs @ [z] \<longleftrightarrow>
   (ys = [] \<and> xs = zs \<and> y = z) \<or> (\<exists>ys'. ys = ys' @ [z] \<and> zs = xs @ y # ys')"
  by (cases ys rule: rev_cases) auto

lemma ball_list_update: "\<forall>u\<in>set xs. P u \<Longrightarrow> P x \<Longrightarrow> \<forall>u\<in>set (xs[i := x]). P u"
  by (metis insert_iff set_update_subset_insert subsetD)

text \<open>The last element of a list with property \<open>P\<close>, among those with \<open>Q\<close>, after appending one more.\<close>

lemma last_occ_snoc_skip:
  assumes "\<not> Q l" and "\<And>y. P y \<Longrightarrow> Q y"
  shows "(\<exists>xs y ys. ls @ [l] = xs @ y # ys \<and> P y \<and> (\<forall>z \<in> set ys. \<not> Q z)) \<longleftrightarrow>
         (\<exists>xs y ys. ls = xs @ y # ys \<and> P y \<and> (\<forall>z \<in> set ys. \<not> Q z))"
proof
  assume "\<exists>xs y ys. ls @ [l] = xs @ y # ys \<and> P y \<and> (\<forall>z \<in> set ys. \<not> Q z)"
  then obtain xs y ys where eq: "xs @ y # ys = ls @ [l]" and y: "P y" and ys: "\<forall>z \<in> set ys. \<not> Q z"
    by metis
  from eq consider "ys = []" "y = l" | ys' where "ys = ys' @ [l]" "ls = xs @ y # ys'"
    by (auto simp: append_Cons_eq_snoc)
  then show "\<exists>xs y ys. ls = xs @ y # ys \<and> P y \<and> (\<forall>z \<in> set ys. \<not> Q z)"
  proof cases
    case 1
    with y assms show ?thesis by blast
  next
    case 2
    with y ys show ?thesis by auto
  qed
next
  assume "\<exists>xs y ys. ls = xs @ y # ys \<and> P y \<and> (\<forall>z \<in> set ys. \<not> Q z)"
  then obtain xs y ys where "ls = xs @ y # ys" "P y" "\<forall>z \<in> set ys. \<not> Q z" by blast
  with assms(1) show "\<exists>xs y ys. ls @ [l] = xs @ y # ys \<and> P y \<and> (\<forall>z \<in> set ys. \<not> Q z)"
    by (intro exI [of _ xs] exI [of _ y] exI [of _ "ys @ [l]"]) auto
qed

lemma last_occ_snoc_last:
  assumes "Q l"
  shows "(\<exists>xs y ys. ls @ [l] = xs @ y # ys \<and> P y \<and> (\<forall>z \<in> set ys. \<not> Q z)) \<longleftrightarrow> P l"
proof
  assume "\<exists>xs y ys. ls @ [l] = xs @ y # ys \<and> P y \<and> (\<forall>z \<in> set ys. \<not> Q z)"
  then obtain xs y ys where eq: "xs @ y # ys = ls @ [l]" and y: "P y" and ys: "\<forall>z \<in> set ys. \<not> Q z"
    by metis
  from eq consider "ys = []" "y = l" | ys' where "ys = ys' @ [l]"
    by (auto simp: append_Cons_eq_snoc)
  then show "P l"
  proof cases
    case 1
    with y show ?thesis by simp
  next
    case 2
    then have "l \<in> set ys" by simp
    with ys assms show ?thesis by blast
  qed
next
  assume "P l"
  then show "\<exists>xs y ys. ls @ [l] = xs @ y # ys \<and> P y \<and> (\<forall>z \<in> set ys. \<not> Q z)"
    by (intro exI [of _ ls] exI [of _ l] exI [of _ "[]"]) simp
qed

lemma takeWhile_dropWhile_same [simp]: "takeWhile P (dropWhile P s) = []"
  by (induction s) auto

lemma set_tl_subset: "set (tl xs) \<subseteq> set xs"
  by (cases xs) auto

lemma set_dropWhile_subset: "set (dropWhile P xs) \<subseteq> set xs"
  by (auto dest: set_dropWhileD)

lemma strip_id:
  assumes "s \<noteq> []" and "\<not> is_space (hd s)" and "\<not> is_space (last s)"
  shows "strip s = s"
proof -
  have "dropWhile is_space s = s" using assms by (cases s) auto
  moreover have "dropWhile is_space (rev s) = rev s"
    using assms by (cases "rev s") (auto simp: last_rev [symmetric])
  ultimately show ?thesis by (simp add: strip_def)
qed

lemma strip_append_space: "is_space c \<Longrightarrow> strip (s @ [c]) = strip s"
  by (induction s) (auto simp: strip_def)

lemma split_lines_Cons_line:
  "CHR ''\<newline>'' \<notin> set l \<Longrightarrow> split_lines (l @ ''\<newline>'' @ rest) = (l @ ''\<newline>'') # split_lines rest"
  by (subst split_lines.simps) (simp add: dropWhile_append takeWhile_append)

text \<open>A text written as newline-terminated lines is read back as those lines.\<close>

lemma split_lines_lines:
  "\<forall>l \<in> set ls. CHR ''\<newline>'' \<notin> set l \<Longrightarrow>
   split_lines (concat (map (\<lambda>l. l @ ''\<newline>'') ls)) = map (\<lambda>l. l @ ''\<newline>'') ls"
proof (induction ls)
  case Nil
  then show ?case by (simp add: split_lines.simps)
next
  case (Cons l ls)
  then show ?case using split_lines_Cons_line [of l] by simp
qed

lemma show_nat_small: "n < 10 \<Longrightarrow> show_nat n = [digit_chr n]"
  by (subst show_nat.simps) simp

lemma show_nat_step: "\<not> n < 10 \<Longrightarrow> show_nat n = show_nat (n div 10) @ [digit_chr (n mod 10)]"
  by (subst show_nat.simps) simp

lemma digit_chr_digit: "d < 10 \<Longrightarrow> is_digit (digit_chr d) \<and> digit_val (digit_chr d) = d"
proof -
  assume "d < 10"
  then have "d = 0 \<or> d = 1 \<or> d = 2 \<or> d = 3 \<or> d = 4 \<or> d = 5 \<or> d = 6 \<or> d = 7 \<or> d = 8 \<or> d = 9"
    by arith
  then show ?thesis
    by (elim disjE) (simp_all add: digit_chr_def is_digit_def digit_val_def)
qed

lemma nat_of_digits_snoc: "nat_of_digits (ds @ [d]) = 10 * nat_of_digits ds + digit_val d"
  by (simp add: nat_of_digits_def)

lemma show_nat_digits: "show_nat n \<noteq> [] \<and> (\<forall>c \<in> set (show_nat n). is_digit c)"
proof (induction n rule: show_nat.induct)
  case (1 n)
  have d: "is_digit (digit_chr (n mod 10))"
    using digit_chr_digit [of "n mod 10"] by simp
  show ?case
  proof (cases "n < 10")
    case True
    then show ?thesis using digit_chr_digit [of n] by (simp add: show_nat_small)
  next
    case False
    have ih: "show_nat (n div 10) \<noteq> [] \<and> (\<forall>c \<in> set (show_nat (n div 10)). is_digit c)"
      using "1.IH" False by blast
    show ?thesis
      unfolding show_nat_step [OF False] using ih d by simp
  qed
qed

text \<open>\<open>int\<close> reads back what \<open>show_nat\<close> prints.\<close>

lemma nat_of_digits_show_nat: "nat_of_digits (show_nat n) = n"
proof (induction n rule: show_nat.induct)
  case (1 n)
  show ?case
  proof (cases "n < 10")
    case True
    then show ?thesis using digit_chr_digit [of n] by (simp add: show_nat_small nat_of_digits_def)
  next
    case False
    have a: "digit_val (digit_chr (n mod 10)) = n mod 10"
      using digit_chr_digit [of "n mod 10"] by simp
    have b: "nat_of_digits (show_nat (n div 10)) = n div 10"
      using "1.IH" False by blast
    have "10 * (n div 10) + n mod 10 = n" by simp
    then show ?thesis
      by (simp only: show_nat_step [OF False] nat_of_digits_snoc a b)
  qed
qed

end
