(* ===== verification/Regex.thy ===== *)
theory Regex
  imports Prelude
begin

text \<open>
  The fragment of Python's \<open>re\<close> module the source relies on: patterns built
  from literals, character classes, concatenation, greedy \<open>*\<close> and capturing
  groups, matched by backtracking.  \<open>bt r s g\<close> lists every way \<open>r\<close> matches
  a prefix of \<open>s\<close>, as the pair of the remaining input and the groups captured
  so far, in the order Python's engine tries them: a greedy star first tries
  one more iteration, then stops.  \<open>re_match\<close> takes the first of these, as
  \<open>Pattern.match\<close> does, and \<open>re_search\<close> tries each start position from the
  left, as \<open>Pattern.search\<close> does.  As in POSIX lexing with derivatives, an
  iteration of a star must consume input.  The lemmas give the matches of
  literals and of starred classes in closed form, and the descending order in
  which a greedy star hands its matches to the rest of the pattern.
\<close>

datatype rx =
    Eps
  | Lit char
  | Cls "char \<Rightarrow> bool"
  | Seq rx rx
  | Star rx
  | Group nat rx

text \<open>Captured groups, the most recent capture of a group first.\<close>

type_synonym groups = "(nat \<times> string) list"

function bt :: "rx \<Rightarrow> string \<Rightarrow> groups \<Rightarrow> (string \<times> groups) list" where
  "bt Eps s g = [(s, g)]"
| "bt (Lit c) s g = (case s of [] \<Rightarrow> [] | d # t \<Rightarrow> if c = d then [(t, g)] else [])"
| "bt (Cls P) s g = (case s of [] \<Rightarrow> [] | d # t \<Rightarrow> if P d then [(t, g)] else [])"
| "bt (Seq r1 r2) s g = concat (map (\<lambda>(t, h). bt r2 t h) (bt r1 s g))"
| "bt (Star r) s g =
     concat (map (\<lambda>(t, h). if length t < length s then bt (Star r) t h else []) (bt r s g)) @ [(s, g)]"
| "bt (Group n r) s g = map (\<lambda>(t, h). (t, (n, take (length s - length t) s) # h)) (bt r s g)"
  by pat_completeness auto
termination
  by (relation "measures [\<lambda>(r, s, g). size r, \<lambda>(r, s, g). length s]") auto

text \<open>The first element of a list of alternatives.\<close>

definition first :: "'a list \<Rightarrow> 'a option" where
  "first xs = (case xs of [] \<Rightarrow> None | x # _ \<Rightarrow> Some x)"

text \<open>\<open>pattern.match(s)\<close>: the groups and the input after the match.\<close>

definition re_match :: "rx \<Rightarrow> string \<Rightarrow> (groups \<times> string) option" where
  "re_match r s = map_option (\<lambda>(t, g). (g, t)) (first (bt r s []))"

text \<open>\<open>pattern.search(s)\<close>: the leftmost start position where the pattern matches.\<close>

fun re_search :: "rx \<Rightarrow> string \<Rightarrow> (groups \<times> string) option" where
  "re_search r [] = re_match r []"
| "re_search r (c # cs) =
     (case re_match r (c # cs) of Some m \<Rightarrow> Some m | None \<Rightarrow> re_search r cs)"

text \<open>\<open>match.group(n)\<close>, \<open>None\<close> when there is no match.\<close>

definition match_group :: "(groups \<times> string) option \<Rightarrow> nat \<Rightarrow> string option" where
  "match_group m n = (case m of None \<Rightarrow> None | Some (g, _) \<Rightarrow> map_of g n)"

text \<open>\<open>(match.group(a), match.group(b))\<close> when there is a match.\<close>

definition match_groups :: "(groups \<times> string) option \<Rightarrow> nat \<Rightarrow> nat \<Rightarrow> (string \<times> string) option" where
  "match_groups m a b =
     (case (match_group m a, match_group m b) of (Some x, Some y) \<Rightarrow> Some (x, y) | _ \<Rightarrow> None)"

text \<open>A literal string, and \<open>r+\<close> (for a single-character \<open>r\<close>, \<open>rr*\<close> tries the same matches in the same order).\<close>

definition lits :: "string \<Rightarrow> rx" where
  "lits p = foldr (\<lambda>c r. Seq (Lit c) r) p Eps"

abbreviation plus :: "rx \<Rightarrow> rx" where
  "plus r \<equiv> Seq r (Star r)"

text \<open>A pattern that never matches at a character of class \<open>P\<close>.\<close>

definition rejects :: "rx \<Rightarrow> (char \<Rightarrow> bool) \<Rightarrow> bool" where
  "rejects r P \<longleftrightarrow> (\<forall>c t g. P c \<longrightarrow> bt r (c # t) g = [])"

declare bt.simps [simp del]

subsection \<open>Matches in closed form\<close>

lemma bt_Eps [simp]: "bt Eps s g = [(s, g)]"
  by (simp add: bt.simps)

lemma bt_Lit [simp]: "bt (Lit c) s g = (if s \<noteq> [] \<and> hd s = c then [(tl s, g)] else [])"
  by (cases s) (auto simp: bt.simps)

lemma bt_Cls [simp]: "bt (Cls P) s g = (if s \<noteq> [] \<and> P (hd s) then [(tl s, g)] else [])"
  by (cases s) (auto simp: bt.simps)

lemma bt_Seq [simp]: "bt (Seq r1 r2) s g = concat (map (\<lambda>(t, h). bt r2 t h) (bt r1 s g))"
  by (simp add: bt.simps)

lemma bt_Group [simp]:
  "bt (Group n r) s g = map (\<lambda>(t, h). (t, (n, take (length s - length t) s) # h)) (bt r s g)"
  by (simp add: bt.simps)

lemma bt_lits: "bt (lits p) s g = (if prefix p s then [(drop (length p) s, g)] else [])"
proof (induction p arbitrary: s)
  case Nil
  then show ?case by (simp add: lits_def)
next
  case (Cons a p)
  then show ?case by (cases s) (simp_all add: lits_def)
qed

lemma bt_Seq_lits:
  "bt (Seq (lits p) r) s g = (if prefix p s then bt r (drop (length p) s) g else [])"
  by (simp add: bt_lits)

lemma bt_Star: "bt (Star r) s g =
     concat (map (\<lambda>(t, h). if length t < length s then bt (Star r) t h else []) (bt r s g)) @ [(s, g)]"
  by (simp add: bt.simps)

lemma upt_Suc_Suc_rev: "rev [0..<Suc (Suc n)] = map Suc (rev [0..<Suc n]) @ [0]"
  by (simp add: upt_conv_Cons map_Suc_upt [symmetric] rev_map del: upt_Suc)

text \<open>A greedy star over a class: all lengths of the run, the longest first.\<close>

lemma bt_Star_Cls:
  "bt (Star (Cls P)) s g = map (\<lambda>k. (drop k s, g)) (rev [0..<Suc (length (takeWhile P s))])"
proof (induction s)
  case Nil
  then show ?case by (simp add: bt_Star)
next
  case (Cons c s)
  show ?case
  proof (cases "P c")
    case True
    then have "bt (Star (Cls P)) (c # s) g = bt (Star (Cls P)) s g @ [(c # s, g)]"
      by (simp add: bt_Star)
    also have "\<dots> = map (\<lambda>k. (drop k (c # s), g)) (rev [0..<Suc (Suc (length (takeWhile P s)))])"
      by (simp add: Cons.IH upt_Suc_Suc_rev del: upt_Suc)
    finally show ?thesis using True by simp
  next
    case False
    then show ?thesis by (simp add: bt_Star)
  qed
qed

subsection \<open>The order in which a greedy star offers its matches\<close>

lemma concat_map_empty: "(\<forall>x \<in> set xs. f x = []) \<Longrightarrow> concat (map f xs) = []"
  by (induction xs) auto

lemma desc_bottom:
  "(\<forall>j < n. f j = []) \<Longrightarrow> concat (map f (rev [0..<Suc n])) = f n"
proof -
  assume "\<forall>j < n. f j = []"
  then have "concat (map f (rev [0..<n])) = []" by (simp add: concat_map_empty)
  then show ?thesis by simp
qed

lemma desc_top:
  "k \<le> m \<Longrightarrow> (\<forall>j. k < j \<and> j \<le> m \<longrightarrow> f j = []) \<Longrightarrow>
   concat (map f (rev [0..<Suc m])) = concat (map f (rev [0..<Suc k]))"
proof (induction m)
  case 0
  then show ?case by simp
next
  case (Suc m)
  show ?case
  proof (cases "k = Suc m")
    case True
    then show ?thesis by simp
  next
    case False
    with Suc.prems have "k \<le> m" and "f (Suc m) = []" by auto
    with Suc show ?thesis by simp
  qed
qed

lemma drop_takeWhile_nth:
  "j < length (takeWhile P s) \<Longrightarrow> drop j s = s ! j # drop (Suc j) s \<and> P (s ! j)"
  by (metis Cons_nth_drop_Suc length_takeWhile_le nth_mem order_less_le_trans set_takeWhileD
      takeWhile_nth)

text \<open>
  A greedy run of class \<open>P\<close> followed by a pattern that cannot start with a
  \<open>P\<close> character: only the longest run can lead to a match.
\<close>

lemma desc_rejects:
  assumes "rejects r P"
  shows "concat (map (\<lambda>k. bt r (drop k u) (h k)) (rev [0..<Suc (length (takeWhile P u))])) =
         bt r (dropWhile P u) (h (length (takeWhile P u)))"
proof -
  have "\<forall>j < length (takeWhile P u). bt r (drop j u) (h j) = []"
    using assms drop_takeWhile_nth by (fastforce simp: rejects_def)
  then show ?thesis by (simp add: desc_bottom dropWhile_eq_drop del: upt_Suc)
qed

lemma bt_Seq_Star_Cls:
  "bt (Seq (Star (Cls P)) r) s g =
   concat (map (\<lambda>k. bt r (drop k s) g) (rev [0..<Suc (length (takeWhile P s))]))"
  by (simp add: bt_Star_Cls comp_def del: upt_Suc)

lemma bt_Seq_Star_Cls_rejects:
  "rejects r P \<Longrightarrow> bt (Seq (Star (Cls P)) r) s g = bt r (dropWhile P s) g"
proof -
  assume r: "rejects r P"
  have "bt (Seq (Star (Cls P)) r) s g =
        concat (map (\<lambda>k. bt r (drop k s) g) (rev [0..<Suc (length (takeWhile P s))]))"
    by (rule bt_Seq_Star_Cls)
  also have "\<dots> = bt r (dropWhile P s) g"
    using desc_rejects [OF r, of s "\<lambda>_. g"] by simp
  finally show ?thesis .
qed

lemma map_rev_upt_cong:
  "(\<And>k. k \<le> m \<Longrightarrow> f k = f' k) \<Longrightarrow> map f (rev [0..<Suc m]) = map f' (rev [0..<Suc m])"
  by (simp add: less_Suc_eq_le del: upt_Suc)

lemma suffix_tl: "suffix (tl s) s"
  by (cases s) (simp_all add: suffix_ConsI)

lemma bt_suffix: "(t, h) \<in> set (bt r s g) \<Longrightarrow> suffix t s"
proof (induction r s g arbitrary: t h rule: bt.induct)
  case (4 r1 r2 s g)
  from "4.prems" obtain t' h' where m1: "(t', h') \<in> set (bt r1 s g)"
    and m2: "(t, h) \<in> set (bt r2 t' h')" by auto
  from "4.IH"(2) [OF m1 refl m2] "4.IH"(1) [OF m1] show ?case
    by (rule suffix_order.trans)
next
  case (5 r s g)
  show ?case
  proof (cases "(t, h) = (s, g)")
    case False
    from "5.prems" have "(t, h) \<in> set (concat (map (\<lambda>(t, h).
        if length t < length s then bt (Star r) t h else []) (bt r s g)))"
      using False by (subst (asm) bt_Star) auto
    then obtain t' h' where m1: "(t', h') \<in> set (bt r s g)"
      and lt: "length t' < length s" and m2: "(t, h) \<in> set (bt (Star r) t' h')"
      by (auto split: if_splits)
    from "5.IH"(2) [OF m1 refl lt m2] "5.IH"(1) [OF m1] show ?thesis
      by (rule suffix_order.trans)
  qed simp
next
  case (6 n r s g)
  then show ?case by auto
qed (auto split: if_splits simp: suffix_tl)

subsection \<open>Patterns that cannot start with a character of a class\<close>

lemma rejects_Seq: "rejects r1 P \<Longrightarrow> rejects (Seq r1 r2) P"
  by (simp add: rejects_def)

lemma rejects_Group: "rejects r P \<Longrightarrow> rejects (Group n r) P"
  by (simp add: rejects_def)

lemma rejects_Lit: "\<not> P c \<Longrightarrow> rejects (Lit c) P"
  by (auto simp: rejects_def)

lemma rejects_lits: "\<not> P c \<Longrightarrow> rejects (lits (c # p)) P"
  by (auto simp: rejects_def lits_def)

lemma rejects_Star_Cls:
  "(\<And>c. P c \<Longrightarrow> \<not> Q c) \<Longrightarrow> rejects r P \<Longrightarrow> rejects (Seq (Star (Cls Q)) r) P"
  by (simp add: rejects_def bt_Seq_Star_Cls del: bt_Seq upt_Suc)

subsection \<open>Groups over a greedy run\<close>

lemma bt_Seq_Eps [simp]: "bt (Seq Eps r) s g = bt r s g"
  by simp

lemma lits_Nil [simp]: "lits [] = Eps"
  by (simp add: lits_def)

lemma bt_plus_Cls:
  "bt (plus (Cls P)) s g =
     (case s of [] \<Rightarrow> []
      | c # u \<Rightarrow> if P c then map (\<lambda>k. (drop k u, g)) (rev [0..<Suc (length (takeWhile P u))]) else [])"
  by (cases s) (simp_all add: bt_Star_Cls del: upt_Suc)

text \<open>\<open>(p[P]+)\<close>: a literal, then a run of class \<open>P\<close>, captured as one group.\<close>

lemma bt_Group_lits_plus_Cls:
  "bt (Group n (Seq (lits p) (plus (Cls P)))) s g =
     (if prefix p s then
        (case drop (length p) s of [] \<Rightarrow> []
         | c # u \<Rightarrow> if P c then map (\<lambda>k. (drop k u, (n, p @ c # take k u) # g))
                                 (rev [0..<Suc (length (takeWhile P u))])
                    else [])
      else [])"
proof (cases "prefix p s")
  case True
  then obtain v where s: "s = p @ v" by (auto simp: prefix_def)
  show ?thesis
  proof (cases v)
    case (Cons c u)
    have le: "length (takeWhile P u) \<le> length u" by (rule length_takeWhile_le)
    have "map (\<lambda>k. (drop k u, (n, take (length p + Suc (length u) - (length u - k)) (p @ c # u)) # g))
            (rev [0..<Suc (length (takeWhile P u))]) =
          map (\<lambda>k. (drop k u, (n, p @ c # take k u) # g)) (rev [0..<Suc (length (takeWhile P u))])"
      using le by (intro map_rev_upt_cong) (simp add: Suc_diff_le)
    with s Cons show ?thesis
      by (simp only: bt_Group bt_Seq_lits bt_plus_Cls) (simp add: comp_def del: upt_Suc)
  qed (simp only: s bt_Group bt_Seq_lits bt_plus_Cls, simp)
qed (simp only: bt_Group bt_Seq_lits, simp)

lemma bt_Group_plus_Cls:
  "bt (Group n (plus (Cls P))) s g =
     (case s of [] \<Rightarrow> []
      | c # u \<Rightarrow> if P c then map (\<lambda>k. (drop k u, (n, c # take k u) # g))
                              (rev [0..<Suc (length (takeWhile P u))])
                 else [])"
  using bt_Group_lits_plus_Cls [of n "[]" P s g] by (cases s) simp_all

text \<open>The same group followed by a pattern that cannot continue the run.\<close>

lemma bt_Seq_Group_lits_plus_Cls:
  assumes "rejects r P"
  shows "bt (Seq (Group n (Seq (lits p) (plus (Cls P)))) r) s g =
     (if prefix p s then
        (case drop (length p) s of [] \<Rightarrow> []
         | c # u \<Rightarrow> if P c then bt r (dropWhile P u) ((n, p @ c # takeWhile P u) # g) else [])
      else [])"
proof -
  have "concat (map (\<lambda>k. bt r (drop k u) ((n, p @ c # take k u) # g))
          (rev [0..<Suc (length (takeWhile P u))])) =
        bt r (dropWhile P u) ((n, p @ c # takeWhile P u) # g)" for c u
    using desc_rejects [OF assms, of u "\<lambda>k. (n, p @ c # take k u) # g"]
    by (simp add: takeWhile_eq_take [symmetric] del: upt_Suc)
  then show ?thesis
    by (simp only: bt_Seq bt_Group_lits_plus_Cls)
      (simp add: comp_def split: list.split del: upt_Suc)
qed

lemma bt_Seq_Group_plus_Cls:
  "rejects r P \<Longrightarrow> bt (Seq (Group n (plus (Cls P))) r) s g =
     (case s of [] \<Rightarrow> []
      | c # u \<Rightarrow> if P c then bt r (dropWhile P u) ((n, c # takeWhile P u) # g) else [])"
  using bt_Seq_Group_lits_plus_Cls [of r P n "[]" s g] by (cases s) simp_all

text \<open>\<open>([P]*)\<close>: every length of the run, the longest first, and the text captured.\<close>

lemma bt_Group_Star_Cls:
  "bt (Group n (Star (Cls P))) s g =
   map (\<lambda>k. (drop k s, (n, take k s) # g)) (rev [0..<Suc (length (takeWhile P s))])"
proof -
  have le: "length (takeWhile P s) \<le> length s" by (rule length_takeWhile_le)
  have "map (\<lambda>k. (drop k s, (n, take (length s - (length s - k)) s) # g))
          (rev [0..<Suc (length (takeWhile P s))]) =
        map (\<lambda>k. (drop k s, (n, take k s) # g)) (rev [0..<Suc (length (takeWhile P s))])"
    using le by (intro map_rev_upt_cong) simp
  then show ?thesis by (simp only: bt_Group bt_Star_Cls) (simp add: comp_def del: upt_Suc)
qed

lemma bt_Seq_Group_Star_Cls:
  "bt (Seq (Group n (Star (Cls P))) r) s g =
   concat (map (\<lambda>k. bt r (drop k s) ((n, take k s) # g)) (rev [0..<Suc (length (takeWhile P s))]))"
  by (simp only: bt_Seq bt_Group_Star_Cls) (simp add: comp_def del: upt_Suc)

subsection \<open>The first match\<close>

lemma match_group_None [simp]: "match_group None n = None"
  and match_groups_None [simp]: "match_groups None a b = None"
  by (simp_all add: match_group_def match_groups_def)

lemma first_Nil [simp]: "first [] = None"
  by (simp add: first_def)

lemma first_append [simp]: "first (xs @ ys) = (case first xs of None \<Rightarrow> first ys | Some x \<Rightarrow> Some x)"
  by (cases xs) (simp_all add: first_def)

lemma first_Cons [simp]: "first (x # xs) = Some x"
  by (simp add: first_def)

lemma first_None_iff: "first xs = None \<longleftrightarrow> xs = []"
  by (cases xs) simp_all

subsection \<open>Runs that must be followed by another class\<close>

lemma concat_map_concat: "concat (map f (concat xss)) = concat (map (\<lambda>xs. concat (map f xs)) xss)"
  by (induction xss) auto

lemma bt_Seq_assoc: "bt (Seq (Seq r1 r2) r3) s g = bt (Seq r1 (Seq r2 r3)) s g"
  by (simp add: concat_map_concat comp_def split_def)

lemma bt_Seq_Lit: "bt (Seq (Lit c) r) s g = (if s \<noteq> [] \<and> hd s = c then bt r (tl s) g else [])"
  by simp

lemma bt_Seq_Cls: "bt (Seq (Cls P) r) s g = (if s \<noteq> [] \<and> P (hd s) then bt r (tl s) g else [])"
  by simp

lemma bt_Seq_plus_Cls_rejects:
  "rejects r P \<Longrightarrow> bt (Seq (plus (Cls P)) r) s g =
     (case s of [] \<Rightarrow> [] | c # u \<Rightarrow> if P c then bt r (dropWhile P u) g else [])"
  by (cases s) (simp_all only: bt_Seq_assoc bt_Seq_Cls bt_Seq_Star_Cls_rejects, simp_all)

lemma first_Group_plus_Cls:
  "first (bt (Group n (plus (Cls P))) w h) =
     (case w of [] \<Rightarrow> None
      | c # u \<Rightarrow> if P c then Some (dropWhile P u, (n, c # takeWhile P u) # h) else None)"
  by (cases w) (simp_all add: bt_Group_plus_Cls dropWhile_eq_drop [symmetric]
      takeWhile_eq_take [symmetric] del: bt_Group bt_Seq)

end
