(* ===== verification/Scan.thy ===== *)
theory Scan
  imports Prelude
begin

text \<open>
  The fragments of the source's regular expressions, as scanners of type
  \<open>string \<Rightarrow> (result \<times> rest) option\<close> that consume a prefix of their input.
  Each pattern of the source (the definition line of
  \<open>parse_location_mappings\<close>, the callsite pattern of
  \<open>resolve_loc_reference\<close>, the marker of \<open>extract_loc_reference\<close>) is a
  sequence of these fragments.  A greedy \<open>\d+\<close> or \<open>\s*\<close> is followed in every
  pattern by a character outside its class, so backtracking into it never
  finds another match, and the deterministic scanners below give the match
  Python's backtracking engine gives.
\<close>

text \<open>A literal at the start of the input: \<open>Some rest\<close> when the input is \<open>p @ rest\<close>.\<close>

fun lit :: "string \<Rightarrow> string \<Rightarrow> string option" where
  "lit [] s = Some s"
| "lit (c # cs) [] = None"
| "lit (c # cs) (d # ds) = (if c = d then lit cs ds else None)"

text \<open>\<open>\d+\<close>, greedy.\<close>

definition digits_plus :: "string \<Rightarrow> (string \<times> string) option" where
  "digits_plus s =
     (let ds = takeWhile is_digit s
      in if ds = [] then None else Some (ds, dropWhile is_digit s))"

text \<open>\<open>(#loc\d+)\<close>: a location reference and the text after it.\<close>

definition scan_loc_ref :: "string \<Rightarrow> (string \<times> string) option" where
  "scan_loc_ref s =
     (case lit ''#loc'' s of
        None \<Rightarrow> None
      | Some t \<Rightarrow> (case digits_plus t of
          None \<Rightarrow> None
        | Some (ds, u) \<Rightarrow> Some (''#loc'' @ ds, u)))"

text \<open>\<open>\s*\<close>, greedy.\<close>

definition skip_ws :: "string \<Rightarrow> string" where
  "skip_ws s = dropWhile is_space s"

text \<open>The strings \<open>(#loc\d+)\<close> matches in full: the well-formed references.\<close>

definition is_loc_ref :: "string \<Rightarrow> bool" where
  "is_loc_ref x \<longleftrightarrow>
     (case lit ''#loc'' x of None \<Rightarrow> False | Some ds \<Rightarrow> ds \<noteq> [] \<and> list_all is_digit ds)"

subsection \<open>Scanner lemmas\<close>

lemma lit_Some_iff [simp]: "lit p s = Some r \<longleftrightarrow> s = p @ r"
  by (induction p s rule: lit.induct) auto

lemma lit_append [simp]: "lit p (p @ r) = Some r"
  by simp

lemma lit_None_iff: "lit p s = None \<longleftrightarrow> \<not> prefix p s"
  by (induction p s rule: lit.induct) auto

lemma digits_plus_Some:
  "digits_plus s = Some (ds, r) \<Longrightarrow>
   s = ds @ r \<and> ds \<noteq> [] \<and> list_all is_digit ds \<and> takeWhile is_digit r = []"
  by (auto simp: digits_plus_def Let_def list_all_iff dest: set_takeWhileD
      split: if_splits)

lemma digits_plus_append:
  "ds \<noteq> [] \<Longrightarrow> list_all is_digit ds \<Longrightarrow> takeWhile is_digit r = [] \<Longrightarrow>
   digits_plus (ds @ r) = Some (ds, r)"
  by (simp add: digits_plus_def takeWhile_append dropWhile_append list_all_iff
      takeWhile_eq_Nil_iff dropWhile_eq_self_iff)

lemma scan_loc_ref_Some:
  assumes "scan_loc_ref s = Some (x, r)"
  shows "s = x @ r \<and> is_loc_ref x \<and> takeWhile is_digit r = []"
proof -
  from assms obtain t ds where t: "s = ''#loc'' @ t" and ds: "digits_plus t = Some (ds, r)"
    and x: "x = ''#loc'' @ ds"
    by (auto simp: scan_loc_ref_def split: option.splits)
  from digits_plus_Some [OF ds] t x show ?thesis
    by (simp add: is_loc_ref_def)
qed

lemma scan_loc_ref_append:
  "is_loc_ref x \<Longrightarrow> takeWhile is_digit r = [] \<Longrightarrow> scan_loc_ref (x @ r) = Some (x, r)"
  by (auto simp: scan_loc_ref_def is_loc_ref_def digits_plus_append split: option.splits)

lemma is_loc_ref_Cons: "is_loc_ref x \<Longrightarrow> x \<noteq> [] \<and> hd x = CHR ''#''"
  by (auto simp: is_loc_ref_def split: option.splits)

lemma is_loc_ref_not_callsite: "is_loc_ref x \<Longrightarrow> \<not> prefix ''callsite'' x"
  by (auto simp: is_loc_ref_def split: option.splits)

lemma is_loc_ref_no_newline: "is_loc_ref x \<Longrightarrow> CHR ''\<newline>'' \<notin> set x"
proof -
  assume "is_loc_ref x"
  then obtain ds where x: "x = ''#loc'' @ ds" and ds: "list_all is_digit ds"
    by (auto simp: is_loc_ref_def split: option.splits)
  have "\<not> is_digit CHR ''\<newline>''" by (simp add: is_digit_def)
  with ds have "CHR ''\<newline>'' \<notin> set ds" by (auto simp: list_all_iff)
  with x show ?thesis by simp
qed

lemma skip_ws_append:
  "list_all is_space w \<Longrightarrow> (r = [] \<or> \<not> is_space (hd r)) \<Longrightarrow> skip_ws (w @ r) = r"
  by (cases r) (simp_all add: skip_ws_def dropWhile_append list_all_iff)

lemma skip_ws_suffix: "suffix (skip_ws s) s"
  by (simp add: skip_ws_def suffix_dropWhile)

end
