(* ===== verification/LocTable.thy ===== *)
theory LocTable
  imports Scan
begin

text \<open>
  The location table (\<open>parse_location_mappings\<close>, attributer.py lines 6--22):
  each line of the IR file is stripped and matched against
  \<open>(#loc\d+)\s*=\s*loc\((.*)\)\<close> from its start; a match binds the reference
  to the text between \<open>loc(\<close> and the last \<open>)\<close> of the line, a later
  definition of the same reference overriding an earlier one, and lines that
  do not match are skipped.  The lemmas show what a definition line yields,
  that every key is a well-formed reference and no value spans a line, and the
  round trip from a list of definitions written as IR lines back to the table.
\<close>

text \<open>
  \<open>(.*)\)\<close> after \<open>loc(\<close>: \<open>.*\<close> runs greedily to the end of the line (it
  does not match a newline) and backs off to the last \<open>)\<close>.
\<close>

definition scan_group_paren :: "string \<Rightarrow> string option" where
  "scan_group_paren t =
     (let v = dropWhile (\<lambda>c. c \<noteq> CHR '')'') (rev (takeWhile (\<lambda>c. c \<noteq> CHR ''\<newline>'') t))
      in if v = [] then None else Some (rev (tl v)))"

text \<open>\<open>loc_pattern.match(line)\<close>: the reference and the raw location expression.\<close>

definition match_loc_def :: "string \<Rightarrow> (string \<times> string) option" where
  "match_loc_def s =
     (case scan_loc_ref s of
        None \<Rightarrow> None
      | Some (loc_ref, t) \<Rightarrow>
          (case lit ''='' (skip_ws t) of
             None \<Rightarrow> None
           | Some u \<Rightarrow>
               (case lit ''loc('' (skip_ws u) of
                  None \<Rightarrow> None
                | Some v \<Rightarrow>
                    (case scan_group_paren v of
                       None \<Rightarrow> None
                     | Some loc_content \<Rightarrow> Some (loc_ref, loc_content)))))"

text \<open>
  The body of the \<open>for line in ir_file\<close> loop: match the stripped line and,
  on a match, store the binding.
\<close>

definition parse_line :: "loc_map \<Rightarrow> string \<Rightarrow> loc_map" where
  "parse_line location_mapping line =
     (case match_loc_def (strip line) of
        Some (loc_ref, loc_content) \<Rightarrow> location_mapping(loc_ref \<mapsto> loc_content)
      | None \<Rightarrow> location_mapping)"

definition parse_location_mappings :: "string list \<Rightarrow> loc_map" where
  "parse_location_mappings ir_file = foldl parse_line Map.empty ir_file"

text \<open>A definition line as the IR printer writes it, \<open>#locN = loc(expr)\<close>.\<close>

definition print_loc_def :: "string \<times> string \<Rightarrow> string" where
  "print_loc_def d = fst d @ '' = loc('' @ snd d @ '')''"

text \<open>The entries a table may hold: a well-formed reference and a one-line expression.\<close>

definition wf_entry :: "string \<Rightarrow> string \<Rightarrow> bool" where
  "wf_entry r e \<longleftrightarrow> is_loc_ref r \<and> CHR ''\<newline>'' \<notin> set e"

subsection \<open>The definition-line pattern\<close>

lemma scan_group_paren_Some:
  "scan_group_paren t = Some e \<Longrightarrow> CHR ''\<newline>'' \<notin> set e"
proof -
  assume a: "scan_group_paren t = Some e"
  let ?l = "takeWhile (\<lambda>c. c \<noteq> CHR ''\<newline>'') t"
  let ?v = "dropWhile (\<lambda>c. c \<noteq> CHR '')'') (rev ?l)"
  from a have e: "e = rev (tl ?v)"
    unfolding scan_group_paren_def Let_def by (metis option.distinct(1) option.inject)
  have "set e = set (tl ?v)" using e by simp
  also have "\<dots> \<subseteq> set ?v" by (rule set_tl_subset)
  also have "\<dots> \<subseteq> set (rev ?l)" by (rule set_dropWhile_subset)
  also have "\<dots> = set ?l" by simp
  finally have "set e \<subseteq> set ?l" .
  moreover have "CHR ''\<newline>'' \<notin> set ?l"
    by (auto dest: set_takeWhileD)
  ultimately show ?thesis by blast
qed

lemma scan_group_paren_append:
  "CHR ''\<newline>'' \<notin> set e \<Longrightarrow> scan_group_paren (e @ '')'') = Some e"
  by (simp add: scan_group_paren_def takeWhile_append)

lemma match_loc_def_Some:
  "match_loc_def s = Some (r, e) \<Longrightarrow> wf_entry r e"
  by (auto simp: match_loc_def_def wf_entry_def dest: scan_loc_ref_Some scan_group_paren_Some
      split: option.splits)

lemma match_loc_def_print:
  assumes "wf_entry r e"
  shows "match_loc_def (print_loc_def (r, e)) = Some (r, e)"
proof -
  from assms have r: "is_loc_ref r" and e: "CHR ''\<newline>'' \<notin> set e"
    by (simp_all add: wf_entry_def)
  have "print_loc_def (r, e) = r @ '' = loc('' @ e @ '')''"
    by (simp add: print_loc_def_def)
  moreover have "scan_loc_ref (r @ '' = loc('' @ e @ '')'') = Some (r, '' = loc('' @ e @ '')'')"
  proof -
    have "takeWhile is_digit ('' = loc('' @ e @ '')'') = []"
      by (simp add: is_digit_def)
    with r show ?thesis by (rule scan_loc_ref_append)
  qed
  moreover have "skip_ws ('' = loc('' @ e @ '')'') = ''= loc('' @ e @ '')''"
    using skip_ws_append [of "'' ''" "''= loc('' @ e @ '')''"] by (simp add: is_space_def)
  moreover have "skip_ws ('' loc('' @ e @ '')'') = ''loc('' @ e @ '')''"
    using skip_ws_append [of "'' ''" "''loc('' @ e @ '')''"] by (simp add: is_space_def)
  ultimately show ?thesis
    using e by (simp add: match_loc_def_def scan_group_paren_append)
qed

lemma strip_print_loc_def:
  "wf_entry r e \<Longrightarrow> strip (print_loc_def (r, e) @ ''\<newline>'') = print_loc_def (r, e)"
  using strip_append_space [of "CHR ''\<newline>''" "print_loc_def (r, e)"]
    strip_id [of "print_loc_def (r, e)"] is_loc_ref_Cons [of r]
  by (simp add: print_loc_def_def wf_entry_def is_space_def)

subsection \<open>The table\<close>

lemma parse_line_wf:
  "(\<forall>k v. m k = Some v \<longrightarrow> wf_entry k v) \<Longrightarrow> parse_line m l k = Some v \<Longrightarrow> wf_entry k v"
  by (auto simp: parse_line_def split: option.splits if_splits dest: match_loc_def_Some)

lemma foldl_parse_line_wf:
  "(\<forall>k v. m k = Some v \<longrightarrow> wf_entry k v) \<Longrightarrow> foldl parse_line m ls r = Some e \<Longrightarrow> wf_entry r e"
proof (induction ls arbitrary: m)
  case Nil
  then show ?case by simp
next
  case (Cons l ls)
  have "\<forall>k v. parse_line m l k = Some v \<longrightarrow> wf_entry k v"
    using Cons.prems(1) parse_line_wf by blast
  with Cons.IH Cons.prems(2) show ?case by simp
qed

lemma parse_line_printed:
  "wf_entry r e \<Longrightarrow> parse_line m (print_loc_def (r, e) @ ''\<newline>'') = m(r \<mapsto> e)"
  by (simp add: parse_line_def strip_print_loc_def match_loc_def_print)

lemma foldl_parse_line_printed:
  "\<forall>d \<in> set ds. wf_entry (fst d) (snd d) \<Longrightarrow>
   foldl parse_line m (map (\<lambda>d. print_loc_def d @ ''\<newline>'') ds) = m ++ map_of (rev ds)"
proof (induction ds arbitrary: m)
  case Nil
  then show ?case by simp
next
  case (Cons d ds)
  obtain r e where d: "d = (r, e)" by (cases d)
  with Cons.prems have step: "parse_line m (print_loc_def d @ ''\<newline>'') = m(r \<mapsto> e)"
    by (simp add: parse_line_printed)
  have "foldl parse_line m (map (\<lambda>d. print_loc_def d @ ''\<newline>'') (d # ds)) =
        foldl parse_line (m(r \<mapsto> e)) (map (\<lambda>d. print_loc_def d @ ''\<newline>'') ds)"
    by (simp add: step)
  also have "\<dots> = m(r \<mapsto> e) ++ map_of (rev ds)"
    using Cons.IH Cons.prems by simp
  also have "\<dots> = m ++ map_of (rev (d # ds))"
  proof -
    have "map_of (rev ((r, e) # ds)) = [r \<mapsto> e] ++ map_of (rev ds)"
      by (simp add: map_of_append)
    then show ?thesis by (simp add: d map_add_assoc)
  qed
  finally show ?case .
qed

text \<open>
  C9. Round trip: a list of well-formed definitions printed as IR lines
  \<open>#locN = loc(expr)\<close> is parsed back into the table that maps each reference
  to its last definition.
\<close>

theorem parse_location_mappings_roundtrip:
  assumes "\<forall>d \<in> set ds. wf_entry (fst d) (snd d)"
  shows "parse_location_mappings (split_lines (concat (map (\<lambda>d. print_loc_def d @ ''\<newline>'') ds))) =
         map_of (rev ds)"
proof -
  have "\<forall>l \<in> set (map print_loc_def ds). CHR ''\<newline>'' \<notin> set l"
    using assms by (auto simp: print_loc_def_def wf_entry_def dest: is_loc_ref_no_newline)
  then have "split_lines (concat (map (\<lambda>d. print_loc_def d @ ''\<newline>'') ds)) =
             map (\<lambda>d. print_loc_def d @ ''\<newline>'') ds"
    using split_lines_lines [of "map print_loc_def ds"] by (simp add: comp_def)
  with assms show ?thesis
    by (simp add: parse_location_mappings_def foldl_parse_line_printed)
qed

theorem parse_location_mappings_roundtrip_witness:
  "wf_entry ''#loc1'' ''\"a.py\":1:1'' \<and> wf_entry ''#loc1'' ''\"b.py\":2:2'' \<and>
   parse_location_mappings
     (split_lines (concat (map (\<lambda>d. print_loc_def d @ ''\<newline>'')
        [(''#loc1'', ''\"a.py\":1:1''), (''#loc1'', ''\"b.py\":2:2'')]))) =
   [''#loc1'' \<mapsto> ''\"b.py\":2:2'']"
proof -
  have w1: "wf_entry ''#loc1'' ''\"a.py\":1:1''" by (simp add: wf_entry_def is_loc_ref_def is_digit_def)
  have w2: "wf_entry ''#loc1'' ''\"b.py\":2:2''" by (simp add: wf_entry_def is_loc_ref_def is_digit_def)
  have h: "\<forall>d \<in> set [(''#loc1'', ''\"a.py\":1:1''), (''#loc1'', ''\"b.py\":2:2'')]. wf_entry (fst d) (snd d)"
    using w1 w2 by simp
  show ?thesis using w1 w2 parse_location_mappings_roundtrip [OF h] by simp
qed

text \<open>
  C20. Every entry of a parsed table is keyed by a well-formed reference
  \<open>#loc\d+\<close> and holds a one-line expression.
\<close>

theorem parse_location_mappings_wf:
  assumes "parse_location_mappings ls r = Some e"
  shows "is_loc_ref r \<and> CHR ''\<newline>'' \<notin> set e"
  using foldl_parse_line_wf [of Map.empty ls r e] assms
  by (simp add: parse_location_mappings_def wf_entry_def)

theorem parse_location_mappings_wf_witness:
  "parse_location_mappings [''  #loc7 = loc(\"f.py\":3:1) \<newline>''] ''#loc7'' = Some ''\"f.py\":3:1'' \<and>
   is_loc_ref ''#loc7'' \<and> CHR ''\<newline>'' \<notin> set ''\"f.py\":3:1''"
proof -
  have h: "parse_location_mappings [''  #loc7 = loc(\"f.py\":3:1) \<newline>''] ''#loc7'' = Some ''\"f.py\":3:1''"
    by code_simp
  show ?thesis using h parse_location_mappings_wf [OF h] by simp
qed

text \<open>
  C29. A later definition of a reference overrides an earlier one: the table
  maps \<open>r\<close> to \<open>e\<close> exactly when some line of the file defines \<open>r\<close> as
  \<open>e\<close> and no later line defines \<open>r\<close> again.
\<close>

theorem parse_location_mappings_last:
  "parse_location_mappings ls r = Some e \<longleftrightarrow>
   (\<exists>xs l ys. ls = xs @ l # ys \<and> match_loc_def (strip l) = Some (r, e) \<and>
      (\<forall>l' \<in> set ys. map_option fst (match_loc_def (strip l')) \<noteq> Some r))"
proof (induction ls rule: rev_induct)
  case Nil
  then show ?case by (simp add: parse_location_mappings_def)
next
  case (snoc l ls)
  let ?P = "\<lambda>y. match_loc_def (strip y) = Some (r, e)"
  let ?Q = "\<lambda>y. map_option fst (match_loc_def (strip y)) = Some r"
  have step: "parse_location_mappings (ls @ [l]) = parse_line (parse_location_mappings ls) l"
    by (simp add: parse_location_mappings_def)
  show ?case
  proof (cases "?Q l")
    case True
    then obtain e' where l: "match_loc_def (strip l) = Some (r, e')" by auto
    have "parse_location_mappings (ls @ [l]) r = Some e \<longleftrightarrow> ?P l"
      using l by (simp add: step parse_line_def)
    also have "\<dots> \<longleftrightarrow> (\<exists>xs y ys. ls @ [l] = xs @ y # ys \<and> ?P y \<and> (\<forall>z \<in> set ys. \<not> ?Q z))"
      using True by (rule last_occ_snoc_last [symmetric])
    finally show ?thesis by simp
  next
    case False
    then have "parse_location_mappings (ls @ [l]) r = parse_location_mappings ls r"
      by (auto simp: step parse_line_def split: option.splits)
    also have "\<dots> = Some e \<longleftrightarrow> (\<exists>xs y ys. ls = xs @ y # ys \<and> ?P y \<and> (\<forall>z \<in> set ys. \<not> ?Q z))"
      using snoc.IH by simp
    also have "\<dots> \<longleftrightarrow> (\<exists>xs y ys. ls @ [l] = xs @ y # ys \<and> ?P y \<and> (\<forall>z \<in> set ys. \<not> ?Q z))"
      using False by (intro last_occ_snoc_skip [symmetric]) auto
    finally show ?thesis by simp
  qed
qed

theorem parse_location_mappings_last_witness:
  "match_loc_def (strip ''#loc1 = loc(b)'') = Some (''#loc1'', ''b'') \<and>
   [''#loc1 = loc(a)'', ''#loc1 = loc(b)''] = [''#loc1 = loc(a)''] @ ''#loc1 = loc(b)'' # [] \<and>
   parse_location_mappings [''#loc1 = loc(a)'', ''#loc1 = loc(b)''] ''#loc1'' = Some ''b''"
proof -
  have m: "match_loc_def (strip ''#loc1 = loc(b)'') = Some (''#loc1'', ''b'')" by code_simp
  have "\<exists>xs l ys. [''#loc1 = loc(a)'', ''#loc1 = loc(b)''] = xs @ l # ys \<and>
      match_loc_def (strip l) = Some (''#loc1'', ''b'') \<and>
      (\<forall>l' \<in> set ys. map_option fst (match_loc_def (strip l')) \<noteq> Some ''#loc1'')"
    using m by (intro exI [of _ "[''#loc1 = loc(a)'']"] exI [of _ "''#loc1 = loc(b)''"] exI [of _ "[]"])
      simp
  then have "parse_location_mappings [''#loc1 = loc(a)'', ''#loc1 = loc(b)''] ''#loc1'' = Some ''b''"
    using parse_location_mappings_last [of "[''#loc1 = loc(a)'', ''#loc1 = loc(b)'']" "''#loc1''" "''b''"]
    by blast
  with m show ?thesis by simp
qed

end
