(* ===== verification/Resolver.thy ===== *)
theory Resolver
  imports Scan
begin

text \<open>
  The resolver (\<open>resolve_loc_reference\<close>, attributer.py lines 25--39).  A
  string that starts with \<open>callsite\<close> is matched against
  \<open>callsite\((#loc\d+)\s*at\s*(#loc\d+)\)\<close> and both operands are resolved
  recursively, the caller printed first; on no match the function falls off
  its end and returns \<open>None\<close>.  Any other string is looked up in the table
  with \<open>unknown\<close> as default; the value found is returned as it is, and is not
  resolved again.  The recursion stops after one level: both operands of a
  callsite are \<open>#loc\<close> references, which never start with \<open>callsite\<close>.  The
  lemmas give the result on each branch and state that one level bound.
\<close>

text \<open>\<open>callsite_pattern.match(loc_ref)\<close>: the called and the caller reference.\<close>

definition match_callsite :: "string \<Rightarrow> (string \<times> string) option" where
  "match_callsite s =
     (case lit ''callsite('' s of
        None \<Rightarrow> None
      | Some t \<Rightarrow>
          (case scan_loc_ref t of
             None \<Rightarrow> None
           | Some (called, u) \<Rightarrow>
               (case lit ''at'' (skip_ws u) of
                  None \<Rightarrow> None
                | Some v \<Rightarrow>
                    (case scan_loc_ref (skip_ws v) of
                       None \<Rightarrow> None
                     | Some (caller, w) \<Rightarrow>
                         (case lit '')'' w of
                            None \<Rightarrow> None
                          | Some _ \<Rightarrow> Some (called, caller))))))"

text \<open>
  The result is \<open>str | None\<close>: \<open>None\<close> where a malformed callsite makes the
  function fall off its end.
\<close>

function resolve_loc_reference :: "string \<Rightarrow> loc_map \<Rightarrow> string option" where
  "resolve_loc_reference loc_ref location_mapping =
     (if prefix ''callsite'' loc_ref then
        (case match_callsite loc_ref of
           Some (called, caller) \<Rightarrow>
             (let called_loc = resolve_loc_reference called location_mapping;
                  caller_loc = resolve_loc_reference caller location_mapping
              in Some (py_str caller_loc @ '' -> '' @ py_str called_loc))
         | None \<Rightarrow> None)
      else Some (dict_get location_mapping loc_ref ''unknown''))"
  by pat_completeness auto
termination
proof (relation "measure (\<lambda>(loc_ref, m). if prefix ''callsite'' loc_ref then 1 else 0)")
  have refs: "\<And>s a b. match_callsite s = Some (a, b) \<Longrightarrow>
      \<not> prefix ''callsite'' a \<and> \<not> prefix ''callsite'' b"
    by (auto simp: match_callsite_def dest!: scan_loc_ref_Some is_loc_ref_not_callsite
        split: option.splits)
  then show "\<And>loc_ref m x called caller. prefix ''callsite'' loc_ref \<Longrightarrow>
      match_callsite loc_ref = Some x \<Longrightarrow> (called, caller) = x \<Longrightarrow>
      ((called, m), loc_ref, m) \<in> measure (\<lambda>(loc_ref, m). if prefix ''callsite'' loc_ref then 1 else 0)"
    by fastforce
  from refs show "\<And>loc_ref m x called caller. prefix ''callsite'' loc_ref \<Longrightarrow>
      match_callsite loc_ref = Some x \<Longrightarrow> (called, caller) = x \<Longrightarrow>
      ((caller, m), loc_ref, m) \<in> measure (\<lambda>(loc_ref, m). if prefix ''callsite'' loc_ref then 1 else 0)"
    by fastforce
qed simp

declare resolve_loc_reference.simps [simp del]

subsection \<open>The branches\<close>

lemma match_callsite_refs:
  "match_callsite s = Some (called, caller) \<Longrightarrow> is_loc_ref called \<and> is_loc_ref caller"
  by (auto simp: match_callsite_def dest!: scan_loc_ref_Some split: option.splits)

lemma resolve_not_callsite:
  "\<not> prefix ''callsite'' r \<Longrightarrow> resolve_loc_reference r m = Some (dict_get m r ''unknown'')"
  by (simp add: resolve_loc_reference.simps)

lemma resolve_loc_ref:
  "is_loc_ref r \<Longrightarrow> resolve_loc_reference r m = Some (dict_get m r ''unknown'')"
  by (simp add: resolve_not_callsite is_loc_ref_not_callsite)

lemma resolve_callsite_match:
  assumes "match_callsite s = Some (called, caller)"
  shows "resolve_loc_reference s m =
           Some (dict_get m caller ''unknown'' @ '' -> '' @ dict_get m called ''unknown'')"
proof -
  have "prefix ''callsite'' s"
    using assms by (auto simp: match_callsite_def lit_None_iff [symmetric] split: option.splits)
  moreover from assms have "is_loc_ref called" and "is_loc_ref caller"
    by (simp_all add: match_callsite_refs)
  ultimately show ?thesis
    using assms by (simp add: resolve_loc_reference.simps [of s] resolve_loc_ref)
qed

text \<open>
  C6. A well-formed callsite \<open>callsite(#locA at #locB)\<close> resolves to the
  entry of the caller \<open>#locB\<close>, then \<open> -> \<close>, then the entry of the called
  \<open>#locA\<close>, each read from the table with \<open>unknown\<close> for a missing entry.
\<close>

theorem resolve_callsite:
  assumes "is_loc_ref a" and "is_loc_ref b"
  shows "resolve_loc_reference (''callsite('' @ a @ '' at '' @ b @ '')'') m =
           Some (dict_get m b ''unknown'' @ '' -> '' @ dict_get m a ''unknown'')"
proof -
  have a: "scan_loc_ref (a @ '' at '' @ b @ '')'') = Some (a, '' at '' @ b @ '')'')"
    using assms(1) by (rule scan_loc_ref_append) (simp add: is_digit_def)
  have b: "scan_loc_ref (b @ '')'') = Some (b, '')'')"
    using assms(2) by (rule scan_loc_ref_append) (simp add: is_digit_def)
  have w1: "skip_ws ('' at '' @ b @ '')'') = ''at '' @ b @ '')''"
    using skip_ws_append [of "'' ''" "''at '' @ b @ '')''"] by (simp add: is_space_def)
  have w2: "skip_ws ('' '' @ b @ '')'') = b @ '')''"
    using skip_ws_append [of "'' ''" "b @ '')''"] is_loc_ref_Cons [OF assms(2)]
    by (simp add: is_space_def)
  have "match_callsite (''callsite('' @ a @ '' at '' @ b @ '')'') = Some (a, b)"
    using a b w1 w2 by (simp add: match_callsite_def)
  then show ?thesis by (rule resolve_callsite_match)
qed

theorem resolve_callsite_witness:
  "resolve_loc_reference ''callsite(#loc1 at #loc2)'' [''#loc1'' \<mapsto> ''\"a.py\":1:1'', ''#loc2'' \<mapsto> ''\"b.py\":2:2''] =
     Some ''\"b.py\":2:2 -> \"a.py\":1:1''"
  using resolve_callsite [of "''#loc1''" "''#loc2''" "[''#loc1'' \<mapsto> ''\"a.py\":1:1'', ''#loc2'' \<mapsto> ''\"b.py\":2:2'']"]
  by (simp add: is_loc_ref_def is_digit_def)

text \<open>
  C17. The recursion of \<open>resolve_loc_reference\<close> is at most one level deep:
  it equals a non-recursive function that looks both callsite operands up
  directly.  Hence it terminates on every input, cyclic tables included.
\<close>

theorem resolve_one_level:
  "resolve_loc_reference s m =
     (if prefix ''callsite'' s
      then map_option (\<lambda>(called, caller).
             dict_get m caller ''unknown'' @ '' -> '' @ dict_get m called ''unknown'')
           (match_callsite s)
      else Some (dict_get m s ''unknown''))"
proof (cases "prefix ''callsite'' s")
  case True
  show ?thesis
  proof (cases "match_callsite s")
    case None
    with True show ?thesis by (simp add: resolve_loc_reference.simps [of s])
  next
    case (Some p)
    with True show ?thesis by (cases p) (simp add: resolve_callsite_match)
  qed
next
  case False
  then show ?thesis by (simp add: resolve_not_callsite)
qed

end
