(* ===== verification/LineAttr.thy ===== *)
theory LineAttr
  imports Resolver
begin

text \<open>
  Attribution of one IR line (attributer.py lines 42--60).
  \<open>extract_loc_reference\<close> searches the line for the leftmost
  \<open>loc\((#loc\d+)\)\<close> and returns the reference; \<open>get_source_location_from_line\<close>
  resolves it, or answers \<open>No location found\<close>.  The lemmas show that the
  search is the leftmost match of the pattern, and that on a line the result is
  always a plain table lookup: the reference extracted never starts with
  \<open>callsite\<close>, so the callsite branch of the resolver is never taken from here.
\<close>

text \<open>\<open>loc\((#loc\d+)\)\<close> matched at the start of the input.\<close>

definition match_loc_marker :: "string \<Rightarrow> string option" where
  "match_loc_marker s =
     (case lit ''loc('' s of
        None \<Rightarrow> None
      | Some t \<Rightarrow>
          (case scan_loc_ref t of
             None \<Rightarrow> None
           | Some (loc_ref, u) \<Rightarrow>
               (case lit '')'' u of None \<Rightarrow> None | Some _ \<Rightarrow> Some loc_ref)))"

text \<open>
  \<open>loc_pattern.search(line)\<close> and \<open>match.group(1)\<close>: try the pattern at each
  position from the left, the first match wins.
\<close>

fun extract_loc_reference :: "string \<Rightarrow> string option" where
  "extract_loc_reference [] = match_loc_marker []"
| "extract_loc_reference (c # cs) =
     (case match_loc_marker (c # cs) of
        Some loc_ref \<Rightarrow> Some loc_ref
      | None \<Rightarrow> extract_loc_reference cs)"

definition get_source_location_from_line :: "string \<Rightarrow> loc_map \<Rightarrow> string option" where
  "get_source_location_from_line line location_mapping =
     (case extract_loc_reference line of
        Some loc_ref \<Rightarrow>
          if loc_ref \<noteq> [] then resolve_loc_reference loc_ref location_mapping
          else Some ''No location found''
      | None \<Rightarrow> Some ''No location found'')"

subsection \<open>The marker\<close>

lemma match_loc_marker_Some:
  assumes "match_loc_marker s = Some r"
  shows "is_loc_ref r \<and> prefix (''loc('' @ r) s"
proof -
  from assms obtain t u where t: "s = ''loc('' @ t" and u: "scan_loc_ref t = Some (r, u)"
    by (auto simp: match_loc_marker_def split: option.splits)
  from scan_loc_ref_Some [OF u] t show ?thesis by simp
qed

lemma match_loc_marker_Nil: "match_loc_marker [] = None"
  by (simp add: match_loc_marker_def)

lemma extract_loc_reference_Some: "extract_loc_reference l = Some r \<Longrightarrow> is_loc_ref r"
  by (induction l rule: extract_loc_reference.induct)
    (auto dest: match_loc_marker_Some simp: match_loc_marker_Nil split: option.splits)

lemma extract_loc_reference_sublist:
  "extract_loc_reference l = Some r \<Longrightarrow> sublist (''loc('' @ r) l"
proof (induction l)
  case Nil
  then show ?case by (simp add: match_loc_marker_Nil)
next
  case (Cons c cs)
  show ?case
  proof (cases "match_loc_marker (c # cs)")
    case None
    with Cons have "sublist (''loc('' @ r) cs" by simp
    then show ?thesis by (simp add: sublist_Cons_right)
  next
    case (Some r')
    with Cons.prems have "match_loc_marker (c # cs) = Some r" by simp
    then show ?thesis using match_loc_marker_Some prefix_imp_sublist by blast
  qed
qed

lemma extract_loc_reference_marker:
  "extract_loc_reference l = Some r \<Longrightarrow> sublist ''loc(#loc'' l"
proof -
  assume e: "extract_loc_reference l = Some r"
  then have "is_loc_ref r" by (rule extract_loc_reference_Some)
  then obtain ds where "r = ''#loc'' @ ds"
    by (auto simp: is_loc_ref_def split: option.splits)
  then have "prefix ''loc(#loc'' (''loc('' @ r)" by simp
  moreover from e have "sublist (''loc('' @ r) l" by (rule extract_loc_reference_sublist)
  ultimately show ?thesis
    by (meson prefix_imp_sublist sublist_order.dual_order.trans)
qed

lemma get_source_location_resolved:
  "get_source_location_from_line line m =
     Some (case extract_loc_reference line of
             None \<Rightarrow> ''No location found''
           | Some r \<Rightarrow> dict_get m r ''unknown'')"
proof (cases "extract_loc_reference line")
  case None
  then show ?thesis by (simp add: get_source_location_from_line_def)
next
  case (Some r)
  then have "is_loc_ref r" by (rule extract_loc_reference_Some)
  with Some show ?thesis
    using is_loc_ref_Cons [of r] by (simp add: get_source_location_from_line_def resolve_loc_ref)
qed

text \<open>
  C5. Attributing a line is a plain table lookup: the result is always a
  string (never \<open>None\<close>), \<open>No location found\<close> when the line has no marker,
  and otherwise the table entry of the first marker's reference, or
  \<open>unknown\<close>.  The callsite branch of the resolver is never reached from here.
\<close>

theorem get_source_location_lookup:
  "get_source_location_from_line line m =
     Some (case extract_loc_reference line of
             None \<Rightarrow> ''No location found''
           | Some r \<Rightarrow> (case m r of Some v \<Rightarrow> v | None \<Rightarrow> ''unknown''))"
  using get_source_location_resolved [of line m]
  by (simp add: dict_get_def split: option.splits)

text \<open>
  C18. \<open>extract_loc_reference\<close> returns the reference of the leftmost position
  where \<open>loc\((#loc\d+)\)\<close> matches, as \<open>re.search\<close> does.
\<close>

theorem extract_loc_reference_leftmost:
  "extract_loc_reference l = Some r \<longleftrightarrow>
   (\<exists>i. match_loc_marker (drop i l) = Some r \<and> (\<forall>j < i. match_loc_marker (drop j l) = None))"
proof (induction l)
  case Nil
  then show ?case by (simp add: match_loc_marker_Nil)
next
  case (Cons c cs)
  show ?case
  proof (cases "match_loc_marker (c # cs)")
    case None
    have "(\<exists>i. match_loc_marker (drop i (c # cs)) = Some r \<and>
              (\<forall>j < i. match_loc_marker (drop j (c # cs)) = None)) \<longleftrightarrow>
          (\<exists>i. match_loc_marker (drop i cs) = Some r \<and> (\<forall>j < i. match_loc_marker (drop j cs) = None))"
    proof
      assume "\<exists>i. match_loc_marker (drop i (c # cs)) = Some r \<and>
                 (\<forall>j < i. match_loc_marker (drop j (c # cs)) = None)"
      then obtain i where i: "match_loc_marker (drop i (c # cs)) = Some r"
        and before: "\<forall>j < i. match_loc_marker (drop j (c # cs)) = None" by blast
      from i None obtain k where k: "i = Suc k" by (cases i) auto
      from i before k show "\<exists>i. match_loc_marker (drop i cs) = Some r \<and>
          (\<forall>j < i. match_loc_marker (drop j cs) = None)"
        by (intro exI [of _ k]) auto
    next
      assume "\<exists>i. match_loc_marker (drop i cs) = Some r \<and> (\<forall>j < i. match_loc_marker (drop j cs) = None)"
      then obtain k where k: "match_loc_marker (drop k cs) = Some r"
        and before: "\<forall>j < k. match_loc_marker (drop j cs) = None" by blast
      have "\<forall>j < Suc k. match_loc_marker (drop j (c # cs)) = None"
      proof (intro allI impI)
        fix j assume "j < Suc k"
        with None before show "match_loc_marker (drop j (c # cs)) = None"
          by (cases j) auto
      qed
      with k show "\<exists>i. match_loc_marker (drop i (c # cs)) = Some r \<and>
          (\<forall>j < i. match_loc_marker (drop j (c # cs)) = None)"
        by (intro exI [of _ "Suc k"]) simp
    qed
    with None Cons.IH show ?thesis by simp
  next
    case (Some r')
    then show ?thesis by (auto intro: exI [of _ 0] elim: allE [of _ 0])
  qed
qed


theorem extract_loc_reference_leftmost_witness:
  "match_loc_marker (drop 2 ''x loc(#loc5) loc(#loc6)'') = Some ''#loc5'' \<and>
   match_loc_marker (drop 0 ''x loc(#loc5) loc(#loc6)'') = None \<and>
   match_loc_marker (drop 1 ''x loc(#loc5) loc(#loc6)'') = None \<and>
   extract_loc_reference ''x loc(#loc5) loc(#loc6)'' = Some ''#loc5''"
proof -
  have m2: "match_loc_marker (drop 2 ''x loc(#loc5) loc(#loc6)'') = Some ''#loc5''" by code_simp
  have m0: "match_loc_marker (drop 0 ''x loc(#loc5) loc(#loc6)'') = None" by code_simp
  have m1: "match_loc_marker (drop 1 ''x loc(#loc5) loc(#loc6)'') = None" by code_simp
  have before: "\<forall>j < 2. match_loc_marker (drop j ''x loc(#loc5) loc(#loc6)'') = None"
    using m0 m1 by (auto simp: numeral_2_eq_2 less_Suc_eq)
  have "extract_loc_reference ''x loc(#loc5) loc(#loc6)'' = Some ''#loc5''"
    using extract_loc_reference_leftmost [of "''x loc(#loc5) loc(#loc6)''" "''#loc5''"] m2 before
    by blast
  with m0 m1 m2 show ?thesis by blast
qed

text \<open>
  A line that does not contain \<open>loc(#loc\<close> is attributed to
  \<open>No location found\<close>.
\<close>

theorem no_marker_no_location:
  assumes "\<not> sublist ''loc(#loc'' line"
  shows "get_source_location_from_line line m = Some ''No location found''"
proof -
  have "extract_loc_reference line = None"
    using assms extract_loc_reference_marker by (cases "extract_loc_reference line") auto
  then show ?thesis by (simp add: get_source_location_resolved)
qed

theorem no_marker_no_location_witness:
  "\<not> sublist ''loc(#loc'' ''%0 = arith.constant 0 : i32 loc(unknown)'' \<and>
   get_source_location_from_line ''%0 = arith.constant 0 : i32 loc(unknown)'' Map.empty =
     Some ''No location found''"
proof -
  have h: "\<not> sublist ''loc(#loc'' ''%0 = arith.constant 0 : i32 loc(unknown)''"
    by code_simp
  show ?thesis using h no_marker_no_location [OF h, of Map.empty] by simp
qed

end
