(* ===== verification/Frame.thy ===== *)
theory Frame
  imports LocTable LineAttr
begin

text \<open>
  The entry point and its cache (attributer.py lines 3 and 63--96).  A frame
  \<open>path:tag@line\<close> is split by \<open>(.+):[^@]+@(\d+)\<close>; frames whose path does
  not contain \<open>ttgir\<close> are returned unchanged.  Otherwise the line is read
  from the file, the file's location table is taken from the process-wide
  cache \<open>location_map_cache\<close> or parsed and stored there, the line is
  attributed and the result formatted.  The file system is a map from paths to
  entries (\<open>open_file\<close> raises \<open>FileNotFoundError\<close>, \<open>PermissionError\<close>
  or \<open>IsADirectoryError\<close> where Python's \<open>open\<close> does); the
  cache is explicit state, passed in and returned.  \<open>attribute_spec_from\<close>
  is the same computation without a cache, the tables parsed from given
  contents, and \<open>attribute_spec\<close> its instance on the current files; the
  cache lemmas show that a cache that agrees with the contents makes no
  difference, that every call keeps it so, that an entry, once stored, is
  never changed or dropped, and which exceptions a call raises.
\<close>

text \<open>Line 3: the module-level cache, empty when the module is first imported.\<close>

definition location_map_cache_init :: loc_cache where
  "location_map_cache_init = Map.empty"

subsection \<open>Splitting the frame\<close>

text \<open>\<open>:[^@]+@(\d+)\<close> at the start of the input: the line number.\<close>

definition match_frame_tail :: "string \<Rightarrow> nat option" where
  "match_frame_tail s =
     (case lit '':'' s of
        None \<Rightarrow> None
      | Some t \<Rightarrow>
          (if takeWhile (\<lambda>c. c \<noteq> CHR ''@'') t = [] then None
           else (case lit ''@'' (dropWhile (\<lambda>c. c \<noteq> CHR ''@'') t) of
                   None \<Rightarrow> None
                 | Some u \<Rightarrow>
                     (case digits_plus u of
                        None \<Rightarrow> None
                      | Some (ds, _) \<Rightarrow> Some (nat_of_digits ds)))))"

text \<open>
  \<open>(.+)\<close> takes the longest run of non-newline characters and backs off one
  character at a time until the rest of the pattern matches: \<open>i\<close> is the
  length of the group being tried.
\<close>

fun match_frame_from :: "string \<Rightarrow> nat \<Rightarrow> (string \<times> nat) option" where
  "match_frame_from s 0 = None"
| "match_frame_from s (Suc i) =
     (case match_frame_tail (drop (Suc i) s) of
        Some n \<Rightarrow> Some (take (Suc i) s, n)
      | None \<Rightarrow> match_frame_from s i)"

text \<open>\<open>extract_file_and_line\<close>: \<open>None\<close> stands for \<open>(None, None)\<close>.\<close>

definition extract_file_and_line :: "string \<Rightarrow> (string \<times> nat) option" where
  "extract_file_and_line input_string =
     match_frame_from input_string (length (takeWhile (\<lambda>c. c \<noteq> CHR ''\<newline>'') input_string))"

subsection \<open>Reading a line\<close>

text \<open>The \<open>enumerate(file, start=1)\<close> loop of \<open>get_line_from_file\<close>.\<close>

fun find_line :: "nat \<Rightarrow> nat \<Rightarrow> string list \<Rightarrow> string option" where
  "find_line current_line_number line_number [] = None"
| "find_line current_line_number line_number (line # lines) =
     (if current_line_number = line_number then Some (strip line)
      else find_line (Suc current_line_number) line_number lines)"

definition get_line_from_file :: "file_system \<Rightarrow> string \<Rightarrow> nat \<Rightarrow> py_error + string option" where
  "get_line_from_file fs filename line_number =
     (case open_file fs filename of
        Inl e \<Rightarrow> Inl e
      | Inr content \<Rightarrow> Inr (find_line 1 line_number (read_lines content)))"

subsection \<open>Formatting, the cache, the entry point\<close>

text \<open>\<open>s.replace("\"", "").replace(":", ":@", 1).replace(":", "_")\<close>.\<close>

definition format_location :: "string \<Rightarrow> string" where
  "format_location s = py_replace '':'' ''_'' (py_replace1 '':'' '':@'' (py_replace ''\"'' [] s))"

text \<open>
  Lines 89--91 and the lookup of line 93: take the table from the cache, or
  open the file, parse it and store the table.
\<close>

definition load_location_map ::
  "file_system \<Rightarrow> loc_cache \<Rightarrow> string \<Rightarrow> py_error + (loc_map \<times> loc_cache)" where
  "load_location_map fs location_map_cache file_path =
     (case location_map_cache file_path of
        Some m \<Rightarrow> Inr (m, location_map_cache)
      | None \<Rightarrow>
          (case open_file fs file_path of
             Inl e \<Rightarrow> Inl e
           | Inr content \<Rightarrow>
               (let m = parse_location_mappings (read_lines content)
                in Inr (m, location_map_cache(file_path \<mapsto> m)))))"

text \<open>
  \<open>attribute_ttgir_frame_up\<close>: the result (an exception or the string
  returned) and the cache after the call.  An exception raised after the
  cache was filled leaves it filled.  \<open>get_source_location_from_line(None, ...)\<close>
  raises \<open>TypeError\<close> in \<open>re.search\<close>; a \<open>None\<close> result would raise
  \<open>AttributeError\<close> on \<open>.replace\<close>.
\<close>

definition attribute_ttgir_frame_up ::
  "file_system \<Rightarrow> loc_cache \<Rightarrow> string \<Rightarrow> (py_error + string) \<times> loc_cache" where
  "attribute_ttgir_frame_up fs location_map_cache input_frame =
     (case extract_file_and_line input_frame of
        Some (file_path, line_number) \<Rightarrow>
          if file_path \<noteq> [] \<and> sublist ''ttgir'' file_path then
            (case get_line_from_file fs file_path line_number of
               Inl e \<Rightarrow> (Inl e, location_map_cache)
             | Inr line_content \<Rightarrow>
                 (case load_location_map fs location_map_cache file_path of
                    Inl e \<Rightarrow> (Inl e, location_map_cache)
                  | Inr (m, cache') \<Rightarrow>
                      (case line_content of
                         None \<Rightarrow> (Inl TypeError, cache')
                       | Some line \<Rightarrow>
                           (case get_source_location_from_line line m of
                              None \<Rightarrow> (Inl AttributeError, cache')
                            | Some s \<Rightarrow> (Inr (format_location s), cache')))))
          else (Inr input_frame, location_map_cache)
      | None \<Rightarrow> (Inr input_frame, location_map_cache))"

subsection \<open>The abstract specification\<close>

text \<open>
  What a call computes, with no cache and no resolver: the line is read from
  the files \<open>fs\<close>, the table is parsed from the content \<open>tables\<close> gives
  for the file, or from its current content where \<open>tables\<close> has none, and
  the line's first marker is looked up in it.
\<close>

definition attribute_spec_from :: "file_system \<Rightarrow> contents \<Rightarrow> string \<Rightarrow> py_error + string" where
  "attribute_spec_from fs tables input_frame =
     (case extract_file_and_line input_frame of
        Some (p, n) \<Rightarrow>
          if p \<noteq> [] \<and> sublist ''ttgir'' p then
            (case open_file fs p of
               Inl e \<Rightarrow> Inl e
             | Inr content \<Rightarrow>
                 (case find_line 1 n (read_lines content) of
                    None \<Rightarrow> Inl TypeError
                  | Some line \<Rightarrow>
                      Inr (format_location
                        (case extract_loc_reference line of
                           None \<Rightarrow> ''No location found''
                         | Some r \<Rightarrow>
                             dict_get (parse_location_mappings (read_lines (dict_get tables p content)))
                               r ''unknown''))))
          else Inr input_frame
      | None \<Rightarrow> Inr input_frame)"

text \<open>The specification of a call against fixed files: the table is that of the current content.\<close>

definition attribute_spec :: "file_system \<Rightarrow> string \<Rightarrow> py_error + string" where
  "attribute_spec fs input_frame = attribute_spec_from fs Map.empty input_frame"

text \<open>A cache agrees with the files when each entry is the table of the file's content.\<close>

definition cache_coherent :: "contents \<Rightarrow> loc_cache \<Rightarrow> bool" where
  "cache_coherent fs c \<longleftrightarrow>
     (\<forall>p \<in> dom c. c p = map_option (\<lambda>content. parse_location_mappings (read_lines content)) (fs p))"

subsection \<open>Splitting the frame: the greedy group\<close>

lemma match_frame_from_iff:
  "match_frame_from s k = Some (p, n) \<longleftrightarrow>
   (\<exists>i. 0 < i \<and> i \<le> k \<and> p = take i s \<and> match_frame_tail (drop i s) = Some n \<and>
        (\<forall>j. i < j \<and> j \<le> k \<longrightarrow> match_frame_tail (drop j s) = None))"
proof (induction k)
  case 0
  then show ?case by simp
next
  case (Suc k)
  show ?case
  proof (cases "match_frame_tail (drop (Suc k) s)")
    case None
    have "(\<exists>i. 0 < i \<and> i \<le> Suc k \<and> p = take i s \<and> match_frame_tail (drop i s) = Some n \<and>
              (\<forall>j. i < j \<and> j \<le> Suc k \<longrightarrow> match_frame_tail (drop j s) = None)) \<longleftrightarrow>
          (\<exists>i. 0 < i \<and> i \<le> k \<and> p = take i s \<and> match_frame_tail (drop i s) = Some n \<and>
              (\<forall>j. i < j \<and> j \<le> k \<longrightarrow> match_frame_tail (drop j s) = None))"
      using None by (auto simp: le_Suc_eq)
    with None Suc.IH show ?thesis by simp
  next
    case (Some n')
    then show ?thesis by (auto simp: le_Suc_eq)
  qed
qed

lemma extract_file_and_line_prefix:
  "extract_file_and_line s = Some (p, n) \<Longrightarrow> p \<noteq> [] \<and> prefix p s"
proof -
  assume "extract_file_and_line s = Some (p, n)"
  then obtain i where i: "0 < i" "i \<le> length (takeWhile (\<lambda>c. c \<noteq> CHR ''\<newline>'') s)"
    and p: "p = take i s"
    by (auto simp: extract_file_and_line_def match_frame_from_iff)
  have "i \<le> length s" using i(2) length_takeWhile_le order_trans by blast
  with i(1) have "s \<noteq> []" by auto
  with i(1) p show ?thesis by (simp add: take_is_prefix)
qed

lemma take_prefix_no_newline:
  "(prefix q s \<and> CHR ''\<newline>'' \<notin> set q) \<longleftrightarrow>
   (length q \<le> length (takeWhile (\<lambda>c. c \<noteq> CHR ''\<newline>'') s) \<and> q = take (length q) s)"
proof (induction q arbitrary: s)
  case Nil
  then show ?case by simp
next
  case (Cons c q)
  then show ?case by (cases s) auto
qed

subsection \<open>Reading a line\<close>

lemma find_line_nth:
  "find_line k n ls = (if k \<le> n \<and> n - k < length ls then Some (strip (ls ! (n - k))) else None)"
proof (induction ls arbitrary: k)
  case Nil
  then show ?case by simp
next
  case (Cons l ls)
  then show ?case by (auto simp: nth_Cons' Suc_diff_Suc)
qed

subsection \<open>Formatting\<close>

lemma concat_map_drop_char: "concat (map (\<lambda>c. if c = a then [] else [c]) s) = filter (\<lambda>c. c \<noteq> a) s"
  by (induction s) auto

lemma concat_map_swap_char:
  "concat (map (\<lambda>c. if c = a then [b] else [c]) s) = map (\<lambda>c. if c = a then b else c) s"
  by (induction s) auto

lemma format_location_eq:
  "format_location s =
     (let t = filter (\<lambda>c. c \<noteq> CHR ''\"'') s in
      if CHR '':'' \<in> set t
      then takeWhile (\<lambda>c. c \<noteq> CHR '':'') t @ ''_@'' @
           map (\<lambda>c. if c = CHR '':'' then CHR ''_'' else c) (tl (dropWhile (\<lambda>c. c \<noteq> CHR '':'') t))
      else t)"
proof -
  let ?t = "filter (\<lambda>c. c \<noteq> CHR ''\"'') s"
  let ?u = "map (\<lambda>c. if c = CHR '':'' then CHR ''_'' else c)"
  have t: "py_replace ''\"'' [] s = ?t"
    by (simp add: py_replace_char concat_map_drop_char)
  have keep: "?u (takeWhile (\<lambda>c. c \<noteq> CHR '':'') ?t) = takeWhile (\<lambda>c. c \<noteq> CHR '':'') ?t"
    by (rule map_idI) (auto dest: set_takeWhileD)
  have u: "\<And>x. py_replace '':'' ''_'' x = ?u x"
    by (simp add: py_replace_char concat_map_swap_char)
  show ?thesis
    by (simp only: format_location_def t u py_replace1_char Let_def)
      (auto simp: keep intro!: map_idI)
qed

subsection \<open>How a call changes the cache\<close>

lemma load_location_map_Inr:
  "load_location_map fs c p = Inr (m, c') \<Longrightarrow>
   (c p = Some m \<and> c' = c) \<or>
   (c p = None \<and> (\<exists>content. open_file fs p = Inr content \<and>
      m = parse_location_mappings (read_lines content) \<and> c' = c(p \<mapsto> m)))"
  by (auto simp: load_location_map_def Let_def split: option.splits sum.splits)

lemma attribute_cache_cases:
  "snd (attribute_ttgir_frame_up fs c f) = c \<or>
   (\<exists>p n content. extract_file_and_line f = Some (p, n) \<and> sublist ''ttgir'' p \<and>
      c p = None \<and> open_file fs p = Inr content \<and>
      snd (attribute_ttgir_frame_up fs c f) = c(p \<mapsto> parse_location_mappings (read_lines content)))"
  by (auto simp: attribute_ttgir_frame_up_def load_location_map_def Let_def
      split: option.splits sum.splits)

lemma attribute_caches_file:
  assumes "extract_file_and_line f = Some (p, n)" and "sublist ''ttgir'' p" and "file_text fs p \<noteq> None"
  shows "snd (attribute_ttgir_frame_up fs c f) p \<noteq> None"
proof -
  have "p \<noteq> []" using extract_file_and_line_prefix [OF assms(1)] by simp
  moreover obtain content where "open_file fs p = Inr content"
    using assms(3) by (cases "open_file fs p") (auto simp: file_text_def)
  ultimately show ?thesis using assms(1,2)
    by (auto simp: attribute_ttgir_frame_up_def get_line_from_file_def load_location_map_def Let_def
        split: option.splits)
qed

lemma load_coherent:
  assumes "cache_coherent tables c" and "dom tables \<subseteq> dom c" and "open_file fs p = Inr content"
  shows "\<exists>c'. load_location_map fs c p =
           Inr (parse_location_mappings (read_lines (dict_get tables p content)), c')"
proof (cases "c p")
  case None
  with assms(2) have "tables p = None" by blast
  with None assms(3) show ?thesis by (simp add: load_location_map_def Let_def dict_get_def)
next
  case (Some m)
  then have "p \<in> dom c" by blast
  with assms(1) have "c p = map_option (\<lambda>content. parse_location_mappings (read_lines content)) (tables p)"
    unfolding cache_coherent_def by blast
  with Some show ?thesis by (auto simp: load_location_map_def dict_get_def)
qed

lemma cache_coherent_update:
  "cache_coherent tables c \<Longrightarrow> tables p = Some content \<Longrightarrow>
   cache_coherent tables (c(p \<mapsto> parse_location_mappings (read_lines content)))"
  by (simp add: cache_coherent_def)

lemma attribute_frame_ttgir:
  "extract_file_and_line f = Some (p, n) \<Longrightarrow> \<not> sublist ''ttgir'' f \<Longrightarrow> \<not> sublist ''ttgir'' p"
  by (meson extract_file_and_line_prefix prefix_imp_sublist sublist_order.dual_order.trans)

lemma match_frame_tail_None: "CHR '':'' \<notin> set t \<Longrightarrow> match_frame_tail t = None"
  by (cases t) (auto simp: match_frame_tail_def)

lemma length_takeWhile_no_newline:
  "CHR ''\<newline>'' \<notin> set p \<Longrightarrow> length p \<le> length (takeWhile (\<lambda>c. c \<noteq> CHR ''\<newline>'') (p @ r))"
  by (simp add: takeWhile_append)

text \<open>
  With a cache that agrees with the files, a call returns what the uncached
  specification computes, exceptions included.
\<close>

lemma attribute_eq_spec_from:
  assumes "cache_coherent tables c" and "dom tables \<subseteq> dom c"
  shows "fst (attribute_ttgir_frame_up fs c f) = attribute_spec_from fs tables f"
proof (cases "extract_file_and_line f")
  case None
  then show ?thesis by (simp add: attribute_ttgir_frame_up_def attribute_spec_from_def)
next
  case (Some pn)
  obtain p n where pn: "pn = (p, n)" by (cases pn)
  show ?thesis
  proof (cases "p \<noteq> [] \<and> sublist ''ttgir'' p")
    case False
    with Some pn show ?thesis by (auto simp: attribute_ttgir_frame_up_def attribute_spec_from_def)
  next
    case True
    show ?thesis
    proof (cases "open_file fs p")
      case (Inl e)
      with Some pn True show ?thesis
        by (simp add: attribute_ttgir_frame_up_def attribute_spec_from_def get_line_from_file_def)
    next
      case (Inr content)
      then obtain c' where
        "load_location_map fs c p =
           Inr (parse_location_mappings (read_lines (dict_get tables p content)), c')"
        using load_coherent [OF assms] by blast
      with Inr \<open>extract_file_and_line f = Some pn\<close> pn True show ?thesis
        by (simp add: attribute_ttgir_frame_up_def attribute_spec_from_def get_line_from_file_def
            get_source_location_resolved split: option.splits)
    qed
  qed
qed

lemma attribute_spec_from_restrict:
  "attribute_spec_from fs (file_text fs |` A) f = attribute_spec fs f"
  by (auto simp: attribute_spec_def attribute_spec_from_def dict_get_def restrict_map_def
      split: option.splits sum.splits)

lemma attribute_eq_spec:
  assumes "cache_coherent (file_text fs) c"
  shows "fst (attribute_ttgir_frame_up fs c f) = attribute_spec fs f"
proof -
  have "cache_coherent (file_text fs |` dom c) c" using assms by (simp add: cache_coherent_def)
  moreover have "dom (file_text fs |` dom c) \<subseteq> dom c" by auto
  ultimately have "fst (attribute_ttgir_frame_up fs c f) = attribute_spec_from fs (file_text fs |` dom c) f"
    by (rule attribute_eq_spec_from)
  then show ?thesis by (simp add: attribute_spec_from_restrict)
qed

lemma attribute_coherent_step:
  assumes "cache_coherent (file_text fs) c"
  shows "cache_coherent (file_text fs) (snd (attribute_ttgir_frame_up fs c f))"
  using attribute_cache_cases [of fs c f] assms cache_coherent_update by fastforce

text \<open>
  C12. The cache is never invalidated: an entry present before a call is
  present, unchanged, after it, whatever the call does or raises.
\<close>

theorem attribute_keeps_entries:
  assumes "c p = Some m"
  shows "snd (attribute_ttgir_frame_up fs c f) p = Some m"
  using attribute_cache_cases [of fs c f] assms by auto

theorem attribute_keeps_entries_witness:
  "[''k.ttgir'' \<mapsto> [''#loc1'' \<mapsto> ''a'']] ''k.ttgir'' = Some [''#loc1'' \<mapsto> ''a''] \<and>
   snd (attribute_ttgir_frame_up Map.empty [''k.ttgir'' \<mapsto> [''#loc1'' \<mapsto> ''a'']] ''k.ttgir:f@1'') ''k.ttgir'' =
     Some [''#loc1'' \<mapsto> ''a'']"
proof -
  have h: "[''k.ttgir'' \<mapsto> [''#loc1'' \<mapsto> ''a'']] ''k.ttgir'' = Some [''#loc1'' \<mapsto> ''a'']" by simp
  show ?thesis
    using h attribute_keeps_entries [where c = "[''k.ttgir'' \<mapsto> [''#loc1'' \<mapsto> ''a'']]" and p = "''k.ttgir''"
        and m = "[''#loc1'' \<mapsto> ''a'']" and fs = Map.empty and f = "''k.ttgir:f@1''"]
    by simp
qed

text \<open>
  C13. A file whose table is in the cache is not parsed again: a call on a
  frame of that file leaves the cache as it is.
\<close>

theorem attribute_cached_no_parse:
  assumes "extract_file_and_line f = Some (p, n)" and "c p \<noteq> None"
  shows "snd (attribute_ttgir_frame_up fs c f) = c"
  using attribute_cache_cases [of fs c f] assms by auto

theorem attribute_cached_no_parse_witness:
  "extract_file_and_line ''k.ttgir:f@1'' = Some (''k.ttgir'', 1) \<and>
   [''k.ttgir'' \<mapsto> [''#loc1'' \<mapsto> ''a'']] ''k.ttgir'' \<noteq> None \<and>
   snd (attribute_ttgir_frame_up Map.empty [''k.ttgir'' \<mapsto> [''#loc1'' \<mapsto> ''a'']] ''k.ttgir:f@1'') =
     [''k.ttgir'' \<mapsto> [''#loc1'' \<mapsto> ''a'']]"
proof -
  have e: "extract_file_and_line ''k.ttgir:f@1'' = Some (''k.ttgir'', 1)" by code_simp
  have c: "[''k.ttgir'' \<mapsto> [''#loc1'' \<mapsto> ''a'']] ''k.ttgir'' \<noteq> None" by simp
  show ?thesis
    using e c attribute_cached_no_parse [where c = "[''k.ttgir'' \<mapsto> [''#loc1'' \<mapsto> ''a'']]"
        and fs = Map.empty, OF e c]
    by simp
qed

text \<open>
  C14. A frame that does not contain \<open>ttgir\<close> is returned unchanged, and the
  cache is not touched.
\<close>

theorem attribute_non_ir_frame:
  assumes "\<not> sublist ''ttgir'' f"
  shows "attribute_ttgir_frame_up fs c f = (Inr f, c)"
  using assms attribute_frame_ttgir
  by (auto simp: attribute_ttgir_frame_up_def split: option.splits)

theorem attribute_non_ir_frame_witness:
  "\<not> sublist ''ttgir'' ''/tmp/x.py:fn@42'' \<and>
   attribute_ttgir_frame_up Map.empty Map.empty ''/tmp/x.py:fn@42'' = (Inr ''/tmp/x.py:fn@42'', Map.empty)"
proof -
  have h: "\<not> sublist ''ttgir'' ''/tmp/x.py:fn@42''" by code_simp
  show ?thesis using h attribute_non_ir_frame [OF h, of Map.empty Map.empty] by simp
qed

text \<open>
  C4. A line number past the end of the file (or 0) makes the call raise
  \<open>TypeError\<close>, not return \<open>No location found\<close>: \<open>get_line_from_file\<close>
  returns \<open>None\<close> and \<open>re.search\<close> is applied to it.  The file's table has
  been stored in the cache before the exception.
\<close>

theorem attribute_line_out_of_range:
  assumes "extract_file_and_line f = Some (p, n)" and "sublist ''ttgir'' p"
    and "open_file fs p = Inr content" and "n = 0 \<or> length (read_lines content) < n"
  shows "attribute_ttgir_frame_up fs c f =
           (Inl TypeError,
            case c p of
              None \<Rightarrow> c(p \<mapsto> parse_location_mappings (read_lines content))
            | Some _ \<Rightarrow> c)"
proof -
  have "p \<noteq> []" using extract_file_and_line_prefix [OF assms(1)] by simp
  moreover have "find_line 1 n (read_lines content) = None"
    using assms(4) by (auto simp: find_line_nth)
  ultimately show ?thesis using assms(1-3)
    by (simp add: attribute_ttgir_frame_up_def get_line_from_file_def load_location_map_def
        Let_def split: option.splits)
qed

theorem attribute_line_out_of_range_witness:
  "extract_file_and_line ''k.ttgir:f@7'' = Some (''k.ttgir'', 7) \<and> sublist ''ttgir'' ''k.ttgir'' \<and>
   open_file [''k.ttgir'' \<mapsto> text_file ''#loc1 = loc(a)\<newline>''] ''k.ttgir'' = Inr ''#loc1 = loc(a)\<newline>'' \<and>
   ((7::nat) = 0 \<or> length (read_lines ''#loc1 = loc(a)\<newline>'') < 7) \<and>
   attribute_ttgir_frame_up [''k.ttgir'' \<mapsto> text_file ''#loc1 = loc(a)\<newline>''] Map.empty ''k.ttgir:f@7'' =
     (Inl TypeError, [''k.ttgir'' \<mapsto> parse_location_mappings (read_lines ''#loc1 = loc(a)\<newline>'')])"
proof -
  have e: "extract_file_and_line ''k.ttgir:f@7'' = Some (''k.ttgir'', 7)" by code_simp
  have t: "sublist ''ttgir'' ''k.ttgir''" by code_simp
  have fs: "open_file [''k.ttgir'' \<mapsto> text_file ''#loc1 = loc(a)\<newline>''] ''k.ttgir'' = Inr ''#loc1 = loc(a)\<newline>''" by simp
  have n: "(7::nat) = 0 \<or> length (read_lines ''#loc1 = loc(a)\<newline>'') < 7" by code_simp
  show ?thesis
    using e t fs n attribute_line_out_of_range [where fs = "[''k.ttgir'' \<mapsto> text_file ''#loc1 = loc(a)\<newline>'']"
        and c = Map.empty, OF e t fs n]
    by simp
qed

text \<open>
  C15. A frame naming a \<open>ttgir\<close> path that \<open>open\<close> cannot open (it does not
  exist, is a directory, or may not be read) raises the exception \<open>open\<close>
  raises, at line 86, and the cache is not touched.
\<close>

theorem attribute_open_error:
  assumes "extract_file_and_line f = Some (p, n)" and "sublist ''ttgir'' p" and "open_file fs p = Inl e"
  shows "attribute_ttgir_frame_up fs c f = (Inl e, c)"
proof -
  have "p \<noteq> []" using extract_file_and_line_prefix [OF assms(1)] by simp
  with assms show ?thesis
    by (simp add: attribute_ttgir_frame_up_def get_line_from_file_def)
qed

theorem attribute_open_error_witness:
  "extract_file_and_line ''k.ttgir:f@1'' = Some (''k.ttgir'', 1) \<and> sublist ''ttgir'' ''k.ttgir'' \<and>
   open_file [''k.ttgir'' \<mapsto> Directory True] ''k.ttgir'' = Inl IsADirectoryError \<and>
   attribute_ttgir_frame_up [''k.ttgir'' \<mapsto> Directory True] Map.empty ''k.ttgir:f@1'' =
     (Inl IsADirectoryError, Map.empty)"
proof -
  have e: "extract_file_and_line ''k.ttgir:f@1'' = Some (''k.ttgir'', 1)" by code_simp
  have t: "sublist ''ttgir'' ''k.ttgir''" by code_simp
  have o: "open_file [''k.ttgir'' \<mapsto> Directory True] ''k.ttgir'' = Inl IsADirectoryError"
    by (simp add: open_file_def)
  show ?thesis
    using e t o attribute_open_error [where fs = "[''k.ttgir'' \<mapsto> Directory True]" and c = Map.empty, OF e t o]
    by simp
qed

text \<open>
  C28. The exceptions of \<open>attribute_ttgir_frame_up\<close>, exactly: a call raises
  what \<open>open\<close> raises when the frame names a \<open>ttgir\<close> path that cannot be
  opened (\<open>FileNotFoundError\<close>, \<open>PermissionError\<close>,
  \<open>IsADirectoryError\<close>), \<open>TypeError\<close> when the file has no line of the
  frame's number, and nothing else.  In particular the \<open>AttributeError\<close> that
  \<open>.replace\<close> on a \<open>None\<close> result would raise never happens: on a line, the
  resolver always returns a string.
\<close>

theorem attribute_errors:
  "fst (attribute_ttgir_frame_up fs c f) = Inl e \<longleftrightarrow>
   (\<exists>p n. extract_file_and_line f = Some (p, n) \<and> sublist ''ttgir'' p \<and>
      (case open_file fs p of Inl e' \<Rightarrow> e = e'
       | Inr content \<Rightarrow> find_line 1 n (read_lines content) = None \<and> e = TypeError))"
proof (cases "extract_file_and_line f")
  case None
  then show ?thesis by (simp add: attribute_ttgir_frame_up_def)
next
  case (Some pn)
  obtain p n where pn: "pn = (p, n)" by (cases pn)
  with Some have e: "extract_file_and_line f = Some (p, n)" by simp
  have "p \<noteq> []" using extract_file_and_line_prefix [OF e] by simp
  show ?thesis
  proof (cases "sublist ''ttgir'' p")
    case True
    show ?thesis
    proof (cases "open_file fs p")
      case (Inl e')
      with True e \<open>p \<noteq> []\<close> show ?thesis
        by (auto simp: attribute_ttgir_frame_up_def get_line_from_file_def)
    next
      case (Inr content)
      obtain m c' where "load_location_map fs c p = Inr (m, c')"
        using Inr by (cases "c p") (auto simp: load_location_map_def Let_def)
      with Inr True e \<open>p \<noteq> []\<close> show ?thesis
        by (auto simp: attribute_ttgir_frame_up_def get_line_from_file_def get_source_location_resolved
            split: option.splits)
    qed
  next
    case False
    with e \<open>p \<noteq> []\<close> show ?thesis
      by (auto simp: attribute_ttgir_frame_up_def get_line_from_file_def)
  qed
qed

theorem attribute_errors_witness:
  "(\<exists>p n. extract_file_and_line ''k.ttgir:f@7'' = Some (p, n) \<and> sublist ''ttgir'' p \<and>
      (case open_file [''k.ttgir'' \<mapsto> text_file ''#loc1 = loc(a)\<newline>''] p of Inl e' \<Rightarrow> TypeError = e'
       | Inr content \<Rightarrow> find_line 1 n (read_lines content) = None \<and> TypeError = TypeError)) \<and>
   fst (attribute_ttgir_frame_up [''k.ttgir'' \<mapsto> text_file ''#loc1 = loc(a)\<newline>''] Map.empty ''k.ttgir:f@7'') =
     Inl TypeError"
proof -
  have e: "extract_file_and_line ''k.ttgir:f@7'' = Some (''k.ttgir'', 7)" by code_simp
  have t: "sublist ''ttgir'' ''k.ttgir''" by code_simp
  have l: "find_line 1 7 (read_lines ''#loc1 = loc(a)\<newline>'') = None" by code_simp
  have ex: "\<exists>p n. extract_file_and_line ''k.ttgir:f@7'' = Some (p, n) \<and> sublist ''ttgir'' p \<and>
      (case open_file [''k.ttgir'' \<mapsto> text_file ''#loc1 = loc(a)\<newline>''] p of Inl e' \<Rightarrow> TypeError = e'
       | Inr content \<Rightarrow> find_line 1 n (read_lines content) = None \<and> TypeError = TypeError)"
    using e t l by auto
  with attribute_errors [of "[''k.ttgir'' \<mapsto> text_file ''#loc1 = loc(a)\<newline>'']" Map.empty "''k.ttgir:f@7''" TypeError]
  show ?thesis by blast
qed

text \<open>
  C10. The frame split is greedy: \<open>extract_file_and_line\<close> returns the
  longest non-empty prefix without a newline that is followed by
  \<open>:[^@]+@\d+\<close>, and the number after that \<open>@\<close>; a path may itself contain
  colons.
\<close>

theorem extract_file_and_line_greedy:
  "extract_file_and_line s = Some (p, n) \<longleftrightarrow>
   (p \<noteq> [] \<and> prefix p s \<and> CHR ''\<newline>'' \<notin> set p \<and> match_frame_tail (drop (length p) s) = Some n \<and>
    (\<forall>q. prefix q s \<and> CHR ''\<newline>'' \<notin> set q \<and> length p < length q \<longrightarrow>
         match_frame_tail (drop (length q) s) = None))"
  (is "?l \<longleftrightarrow> ?r")
proof
  let ?K = "length (takeWhile (\<lambda>c. c \<noteq> CHR ''\<newline>'') s)"
  have K: "?K \<le> length s" by (rule length_takeWhile_le)
  {
    assume ?l
    then obtain i where i: "0 < i" "i \<le> ?K" "p = take i s" "match_frame_tail (drop i s) = Some n"
      and later: "\<forall>j. i < j \<and> j \<le> ?K \<longrightarrow> match_frame_tail (drop j s) = None"
      by (auto simp: extract_file_and_line_def match_frame_from_iff)
    have len: "length p = i" using i(2,3) K by simp
    have "prefix p s \<and> CHR ''\<newline>'' \<notin> set p"
      using take_prefix_no_newline [of p s] i(2,3) len by simp
    moreover have "\<forall>q. prefix q s \<and> CHR ''\<newline>'' \<notin> set q \<and> length p < length q \<longrightarrow>
         match_frame_tail (drop (length q) s) = None"
      using later len take_prefix_no_newline by blast
    ultimately show ?r using i(1,4) len by auto
  }
  {
    assume r: ?r
    then have p: "length p \<le> ?K" "p = take (length p) s"
      using take_prefix_no_newline [of p s] by auto
    have "\<forall>j. length p < j \<and> j \<le> ?K \<longrightarrow> match_frame_tail (drop j s) = None"
    proof (intro allI impI)
      fix j assume j: "length p < j \<and> j \<le> ?K"
      then have "prefix (take j s) s \<and> CHR ''\<newline>'' \<notin> set (take j s)"
        using take_prefix_no_newline [of "take j s" s] K by simp
      moreover have "length (take j s) = j" using j K by simp
      ultimately show "match_frame_tail (drop j s) = None"
        using r j by metis
    qed
    with r p show ?l
      by (auto simp: extract_file_and_line_def match_frame_from_iff intro!: exI [of _ "length p"])
  }
qed

theorem extract_file_and_line_greedy_witness:
  "extract_file_and_line ''C:/a.ttgir:fn:x@42'' = Some (''C:/a.ttgir:fn'', 42) \<and>
   match_frame_tail (drop (length ''C:/a.ttgir:fn'') ''C:/a.ttgir:fn:x@42'') = Some 42"
proof -
  have e: "extract_file_and_line ''C:/a.ttgir:fn:x@42'' = Some (''C:/a.ttgir:fn'', 42)" by code_simp
  show ?thesis using e extract_file_and_line_greedy [of "''C:/a.ttgir:fn:x@42''"] by blast
qed

text \<open>
  C11. Round trip: a frame written as \<open>path:tag@N\<close>, with a path without
  newline and a tag without \<open>:\<close> or \<open>@\<close>, is split back into the path and
  \<open>N\<close>.
\<close>

theorem extract_file_and_line_roundtrip:
  assumes "p \<noteq> []" and "CHR ''\<newline>'' \<notin> set p" and "tag \<noteq> []"
    and "CHR '':'' \<notin> set tag" and "CHR ''@'' \<notin> set tag"
  shows "extract_file_and_line (p @ '':'' @ tag @ ''@'' @ show_nat n) = Some (p, n)"
proof -
  let ?ds = "show_nat n"
  let ?r = "tag @ ''@'' @ ?ds"
  let ?s = "p @ '':'' @ ?r"
  have colon: "\<not> is_digit CHR '':''" by (simp add: is_digit_def)
  have ds: "?ds \<noteq> []" "list_all is_digit ?ds" "CHR '':'' \<notin> set ?ds"
    using show_nat_digits [of n] colon by (auto simp: list_all_iff)
  have "takeWhile (\<lambda>c. c \<noteq> CHR ''@'') ?r = tag" and "dropWhile (\<lambda>c. c \<noteq> CHR ''@'') ?r = ''@'' @ ?ds"
    using assms(5) by (simp_all add: takeWhile_append dropWhile_append)
  moreover have "digits_plus ?ds = Some (?ds, [])"
    using digits_plus_append [of ?ds "[]"] ds by simp
  ultimately have tail: "match_frame_tail (drop (length p) ?s) = Some n"
    using assms(3) by (simp add: match_frame_tail_def nat_of_digits_show_nat)
  have later: "\<forall>j. length p < j \<and> j \<le> length (takeWhile (\<lambda>c. c \<noteq> CHR ''\<newline>'') ?s) \<longrightarrow>
      match_frame_tail (drop j ?s) = None"
  proof (intro allI impI)
    fix j assume "length p < j \<and> j \<le> length (takeWhile (\<lambda>c. c \<noteq> CHR ''\<newline>'') ?s)"
    then obtain k where "j = Suc (length p + k)" by (metis less_iff_Suc_add)
    then have "drop j ?s = drop (j - Suc (length p)) ?r" by simp
    moreover have "CHR '':'' \<notin> set (drop (j - Suc (length p)) ?r)"
      using assms(4) ds(3) in_set_dropD by fastforce
    ultimately show "match_frame_tail (drop j ?s) = None"
      by (simp add: match_frame_tail_None)
  qed
  have "length p \<le> length (takeWhile (\<lambda>c. c \<noteq> CHR ''\<newline>'') ?s)"
    using assms(2) by (rule length_takeWhile_no_newline)
  with assms(1) tail later show ?thesis
    by (auto simp: extract_file_and_line_def match_frame_from_iff intro!: exI [of _ "length p"])
qed

theorem extract_file_and_line_roundtrip_witness:
  "''/tmp/x.ttgir'' \<noteq> [] \<and> CHR ''\<newline>'' \<notin> set ''/tmp/x.ttgir'' \<and> ''fn'' \<noteq> [] \<and>
   CHR '':'' \<notin> set ''fn'' \<and> CHR ''@'' \<notin> set ''fn'' \<and>
   extract_file_and_line (''/tmp/x.ttgir'' @ '':'' @ ''fn'' @ ''@'' @ show_nat 42) = Some (''/tmp/x.ttgir'', 42)"
  using extract_file_and_line_roundtrip [of "''/tmp/x.ttgir''" "''fn''" 42] by simp

text \<open>
  C21. \<open>get_line_from_file\<close> returns the stripped \<open>n\<close>-th line (counted from
  1) when the file has one, \<open>None\<close> otherwise (\<open>n = 0\<close> included), and
  raises what \<open>open\<close> raises when the file cannot be opened.
\<close>

theorem get_line_from_file_nth:
  "get_line_from_file fs filename n =
     (case open_file fs filename of
        Inl e \<Rightarrow> Inl e
      | Inr content \<Rightarrow>
          Inr (if 1 \<le> n \<and> n \<le> length (read_lines content)
               then Some (strip (read_lines content ! (n - 1))) else None))"
  by (cases "open_file fs filename") (auto simp: get_line_from_file_def find_line_nth)

text \<open>
  C22. The formatted result contains no colon and no double quote.
\<close>

theorem format_location_no_colon:
  "CHR '':'' \<notin> set (format_location s) \<and> CHR ''\"'' \<notin> set (format_location s)"
proof -
  let ?t = "filter (\<lambda>c. c \<noteq> CHR ''\"'') s"
  have "CHR '':'' \<notin> set (takeWhile (\<lambda>c. c \<noteq> CHR '':'') ?t)"
    by (auto dest: set_takeWhileD)
  moreover have "CHR ''\"'' \<notin> set (takeWhile (\<lambda>c. c \<noteq> CHR '':'') ?t)"
    by (auto dest: set_takeWhileD)
  moreover have "CHR ''\"'' \<notin> set (tl (dropWhile (\<lambda>c. c \<noteq> CHR '':'') ?t))"
    using set_tl_subset set_dropWhile_subset by fastforce
  ultimately show ?thesis
    by (auto simp: format_location_eq Let_def)
qed

text \<open>
  C7. Quotes are removed; the first colon becomes \<open>_@\<close>, not the \<open>:@\<close>
  the design describes, because the final \<open>replace(":", "_")\<close> also rewrites
  the colon inserted by \<open>replace(":", ":@", 1)\<close>; every other colon becomes
  \<open>_\<close>.
\<close>

theorem format_location_first_colon:
  assumes "filter (\<lambda>c. c \<noteq> CHR ''\"'') s = a @ CHR '':'' # b" and "CHR '':'' \<notin> set a"
  shows "format_location s = a @ ''_@'' @ map (\<lambda>c. if c = CHR '':'' then CHR ''_'' else c) b"
  using assms by (simp add: format_location_eq takeWhile_append dropWhile_append)

theorem format_location_first_colon_witness:
  "filter (\<lambda>c. c \<noteq> CHR ''\"'') ''\"x\":1:2'' = ''x'' @ CHR '':'' # ''1:2'' \<and> CHR '':'' \<notin> set ''x'' \<and>
   format_location ''\"x\":1:2'' = ''x_@1_2''"
  using format_location_first_colon [of "''\"x\":1:2''" "''x''" "''1:2''"] by simp

end
