(* ===== verification/Patterns.thy ===== *)
theory Patterns
  imports Regex Frame
begin

text \<open>
  The four regular expressions of attributer.py, written as patterns of the
  \<open>Regex\<close> theory exactly as the source compiles them, and the proof that each
  hand-written scanner of the model returns what Python's \<open>match\<close> or
  \<open>search\<close> returns for its pattern: the same match or none, and the same
  groups.  This justifies the scanners used by the component theories
  (\<open>match_loc_def\<close>, \<open>match_callsite\<close>, \<open>extract_loc_reference\<close>,
  \<open>extract_file_and_line\<close>) as faithful to the source's regular expressions,
  backtracking included.
\<close>

text \<open>\<open>#loc\d+\<close>, the reference inside each pattern.\<close>

definition loc_ref_rx :: rx where
  "loc_ref_rx = Seq (lits ''#loc'') (plus (Cls is_digit))"

text \<open>Line 13: \<open>(#loc\d+)\s*=\s*loc\((.*)\)\<close>.\<close>

definition loc_def_pattern :: rx where
  "loc_def_pattern =
     Seq (Group 1 loc_ref_rx)
      (Seq (Star (Cls is_space))
       (Seq (lits ''='')
        (Seq (Star (Cls is_space))
         (Seq (lits ''loc('')
          (Seq (Group 2 (Star (Cls (\<lambda>c. c \<noteq> CHR ''\<newline>'')))) (lits '')''))))))"

text \<open>Line 31: \<open>callsite\((#loc\d+)\s*at\s*(#loc\d+)\)\<close>.\<close>

definition callsite_pattern :: rx where
  "callsite_pattern =
     Seq (lits ''callsite('')
      (Seq (Group 1 loc_ref_rx)
       (Seq (Star (Cls is_space))
        (Seq (lits ''at'')
         (Seq (Star (Cls is_space))
          (Seq (Group 2 loc_ref_rx) (lits '')''))))))"

text \<open>Line 46: \<open>loc\((#loc\d+)\)\<close>.\<close>

definition loc_marker_pattern :: rx where
  "loc_marker_pattern = Seq (lits ''loc('') (Seq (Group 1 loc_ref_rx) (lits '')''))"

text \<open>Line 73: \<open>(.+):[^@]+@(\d+)\<close>, the part after the file path first.\<close>

definition frame_tail_rx :: rx where
  "frame_tail_rx =
     Seq (Lit CHR '':'')
      (Seq (plus (Cls (\<lambda>c. c \<noteq> CHR ''@'')))
       (Seq (Lit CHR ''@'') (Group 2 (plus (Cls is_digit)))))"

definition frame_pattern :: rx where
  "frame_pattern = Seq (Group 1 (plus (Cls (\<lambda>c. c \<noteq> CHR ''\<newline>'')))) frame_tail_rx"

subsection \<open>The reference group\<close>

lemma digit_not_space: "is_digit c \<Longrightarrow> \<not> is_space c"
  by (auto simp: is_digit_def is_space_def)

lemma bt_Seq_Group_loc_ref:
  assumes "rejects r is_digit"
  shows "bt (Seq (Group n loc_ref_rx) r) s g =
         (case scan_loc_ref s of None \<Rightarrow> [] | Some (x, t) \<Rightarrow> bt r t ((n, x) # g))"
proof (cases "prefix ''#loc'' s")
  case True
  then obtain v where s: "s = ''#loc'' @ v" by (auto simp: prefix_def)
  show ?thesis
    unfolding loc_ref_rx_def bt_Seq_Group_lits_plus_Cls [OF assms]
    by (cases v) (simp_all add: s scan_loc_ref_def digits_plus_def)
next
  case False
  then have "lit ''#loc'' s = None" by (simp add: lit_None_iff)
  with False show ?thesis
    unfolding loc_ref_rx_def bt_Seq_Group_lits_plus_Cls [OF assms]
    by (simp add: scan_loc_ref_def)
qed

subsection \<open>The greedy \<open>(.*)\)\<close>\<close>

lemma prefix_single_drop: "prefix [c] (drop k v) \<longleftrightarrow> k < length v \<and> v ! k = c"
  by (cases "k < length v") (auto simp: Cons_nth_drop_Suc [symmetric])

lemma prefix_single: "prefix [c] w \<longleftrightarrow> w \<noteq> [] \<and> hd w = c"
  by (cases w) auto

lemma bt_lits_single: "bt (lits [c]) (drop k v) h =
    (if k < length v \<and> v ! k = c then [(drop (Suc k) v, h)] else [])"
  by (simp add: bt_lits prefix_single_drop)

lemma paren_in_line:
  assumes "j \<le> length (takeWhile (\<lambda>c. c \<noteq> CHR ''\<newline>'') v)"
  shows "(j < length v \<and> v ! j = CHR '')'') \<longleftrightarrow>
         (j < length (takeWhile (\<lambda>c. c \<noteq> CHR ''\<newline>'') v) \<and>
          takeWhile (\<lambda>c. c \<noteq> CHR ''\<newline>'') v ! j = CHR '')'')"
proof (cases "j < length (takeWhile (\<lambda>c. c \<noteq> CHR ''\<newline>'') v)")
  case True
  then show ?thesis
    by (metis length_takeWhile_le order_less_le_trans takeWhile_nth)
next
  case False
  with assms have j: "j = length (takeWhile (\<lambda>c. c \<noteq> CHR ''\<newline>'') v)" by simp
  show ?thesis
    using nth_length_takeWhile [of "\<lambda>c. c \<noteq> CHR ''\<newline>''" v] False j by auto
qed

text \<open>
  \<open>(.*)\)\<close>: the group runs to the last \<open>)\<close> before the end of the line,
  which is what \<open>scan_group_paren\<close> computes.
\<close>

lemma first_group_paren:
  "first (bt (Seq (Group n (Star (Cls (\<lambda>c. c \<noteq> CHR ''\<newline>'')))) (lits '')'')) v g) =
   map_option (\<lambda>e. (drop (Suc (length e)) v, (n, e) # g)) (scan_group_paren v)"
proof -
  define l where "l = takeWhile (\<lambda>c. c \<noteq> CHR ''\<newline>'') v"
  define f where "f k = (if k < length l \<and> l ! k = CHR '')''
                         then [(drop (Suc k) v, (n, take k v) # g)] else [])" for k
  have "bt (Seq (Group n (Star (Cls (\<lambda>c. c \<noteq> CHR ''\<newline>'')))) (lits '')'')) v g =
        concat (map (\<lambda>k. bt (lits '')'') (drop k v) ((n, take k v) # g)) (rev [0..<Suc (length l)]))"
    by (simp only: bt_Seq_Group_Star_Cls l_def)
  also have "\<dots> = concat (map f (rev [0..<Suc (length l)]))"
    by (rule arg_cong [where f = concat], rule map_rev_upt_cong)
      (simp only: bt_lits_single f_def l_def paren_in_line)
  finally have bt: "bt (Seq (Group n (Star (Cls (\<lambda>c. c \<noteq> CHR ''\<newline>'')))) (lits '')'')) v g =
      concat (map f (rev [0..<Suc (length l)]))" .
  show ?thesis
  proof (cases "CHR '')'' \<in> set l")
    case True
    then obtain x y where l: "l = x @ CHR '')'' # y" and y: "CHR '')'' \<notin> set y"
      using split_list_last by metis
    have r: "rev l = rev y @ CHR '')'' # rev x" by (simp add: l)
    have "dropWhile (\<lambda>c. c \<noteq> CHR '')'') (rev y @ CHR '')'' # rev x) =
          dropWhile (\<lambda>c. c \<noteq> CHR '')'') (CHR '')'' # rev x)"
      using y by (intro dropWhile_append2) auto
    then have "dropWhile (\<lambda>c. c \<noteq> CHR '')'') (rev l) = CHR '')'' # rev x"
      by (simp add: r)
    then have scan: "scan_group_paren v = Some x"
      by (simp add: scan_group_paren_def l_def [symmetric])
    have fj: "f j = []" if "length x < j" "j \<le> length l" for j
    proof -
      have "j < length l \<Longrightarrow> l ! j \<in> set y"
        using that by (simp add: l nth_append nth_Cons' split: if_splits)
      with y show ?thesis by (auto simp: f_def)
    qed
    have c: "concat (map f (rev [0..<Suc (length l)])) = concat (map f (rev [0..<Suc (length x)]))"
    proof (rule desc_top)
      show "length x \<le> length l" by (simp add: l)
      show "\<forall>j. length x < j \<and> j \<le> length l \<longrightarrow> f j = []" using fj by blast
    qed
    obtain w where vw: "v = l @ w" by (metis l_def takeWhile_dropWhile_id)
    have "take (length x) v = x" by (simp add: vw l)
    then have fx: "f (length x) = [(drop (Suc (length x)) v, (n, x) # g)]"
      by (simp add: f_def l)
    show ?thesis unfolding bt c scan by (simp add: fx)
  next
    case False
    then have "dropWhile (\<lambda>c. c \<noteq> CHR '')'') (rev l) = []" by auto
    then have scan: "scan_group_paren v = None"
      by (simp add: scan_group_paren_def l_def [symmetric])
    have "\<forall>k \<in> set (rev [0..<Suc (length l)]). f k = []"
      using False by (auto simp: f_def) (metis nth_mem)
    then show ?thesis by (simp only: bt concat_map_empty scan) simp
  qed
qed

subsection \<open>Reading the groups of a match\<close>

lemma lit_eq: "lit p s = (if prefix p s then Some (drop (length p) s) else None)"
  by (auto simp: lit_None_iff prefix_def)

lemma bt_Seq_ws_lits:
  "p \<noteq> [] \<Longrightarrow> \<not> is_space (hd p) \<Longrightarrow>
   bt (Seq (Star (Cls is_space)) (Seq (lits p) r)) s g =
     (case lit p (skip_ws s) of None \<Rightarrow> [] | Some t \<Rightarrow> bt r t g)"
proof -
  assume p: "p \<noteq> []" and sp: "\<not> is_space (hd p)"
  then have "rejects (Seq (lits p) r) is_space"
    by (cases p) (simp_all add: rejects_Seq rejects_lits)
  then have "bt (Seq (Star (Cls is_space)) (Seq (lits p) r)) s g = bt (Seq (lits p) r) (skip_ws s) g"
    by (simp only: bt_Seq_Star_Cls_rejects skip_ws_def)
  then show ?thesis by (simp only: bt_Seq_lits lit_eq) simp
qed

lemma match_groups_first:
  assumes "map_option snd (first (bt P s [])) = map_option (\<lambda>(x, y). [(b, y), (a, x)]) R"
    and "a \<noteq> b"
  shows "match_groups (re_match P s) a b = R"
  using assms
  by (cases "first (bt P s [])"; cases R)
    (auto simp: match_groups_def match_group_def re_match_def split: prod.splits)

subsection \<open>The definition line\<close>

lemma loc_def_after_ref:
  "rejects (Seq (Star (Cls is_space)) (Seq (lits ''='') r)) is_digit"
  by (intro rejects_Star_Cls rejects_Seq rejects_lits digit_not_space) (simp_all add: is_digit_def)

lemma not_space_eq: "\<not> is_space CHR ''=''" and not_space_l: "\<not> is_space CHR ''l''"
  and not_space_a: "\<not> is_space CHR ''a''" and not_space_hash: "\<not> is_space CHR ''#''"
  by (simp_all add: is_space_def)

lemma first_loc_def_pattern:
  "map_option snd (first (bt loc_def_pattern s [])) =
   map_option (\<lambda>(x, y). [(2, y), (1, x)]) (match_loc_def s)"
proof -
  have ws1: "bt (Seq (Star (Cls is_space)) (Seq (lits ''='') r)) t g =
      (case lit ''='' (skip_ws t) of None \<Rightarrow> [] | Some u \<Rightarrow> bt r u g)" for r t g
    by (rule bt_Seq_ws_lits) (simp_all add: not_space_eq)
  have ws2: "bt (Seq (Star (Cls is_space)) (Seq (lits ''loc('') r)) t g =
      (case lit ''loc('' (skip_ws t) of None \<Rightarrow> [] | Some u \<Rightarrow> bt r u g)" for r t g
    by (rule bt_Seq_ws_lits) (simp_all add: not_space_l)
  have "bt loc_def_pattern s [] =
        (case scan_loc_ref s of None \<Rightarrow> []
         | Some (x, t) \<Rightarrow>
            (case lit ''='' (skip_ws t) of None \<Rightarrow> []
             | Some u \<Rightarrow>
                (case lit ''loc('' (skip_ws u) of None \<Rightarrow> []
                 | Some v \<Rightarrow> bt (Seq (Group 2 (Star (Cls (\<lambda>c. c \<noteq> CHR ''\<newline>'')))) (lits '')'')) v
                              [(1, x)])))"
    unfolding loc_def_pattern_def bt_Seq_Group_loc_ref [OF loc_def_after_ref]
    by (simp only: ws1 ws2)
  then show ?thesis
    by (simp add: match_loc_def_def first_group_paren del: bt_Seq split: option.splits)
qed

subsection \<open>The callsite\<close>

lemma rejects_loc_ref_space: "rejects (Seq (Group n loc_ref_rx) r) is_space"
  by (simp add: loc_ref_rx_def rejects_Seq rejects_Group rejects_lits not_space_hash)

lemma rejects_paren_digit: "rejects (lits '')'') is_digit"
  by (rule rejects_lits) (simp add: is_digit_def)

lemma first_callsite_pattern:
  "map_option snd (first (bt callsite_pattern s [])) =
   map_option (\<lambda>(x, y). [(2, y), (1, x)]) (match_callsite s)"
proof -
  have at: "rejects (Seq (Star (Cls is_space)) (Seq (lits ''at'') r)) is_digit" for r
    by (intro rejects_Star_Cls rejects_Seq rejects_lits digit_not_space) (simp_all add: is_digit_def)
  have ws: "bt (Seq (Star (Cls is_space)) (Seq (lits ''at'') r)) t g =
      (case lit ''at'' (skip_ws t) of None \<Rightarrow> [] | Some u \<Rightarrow> bt r u g)" for r t g
    by (rule bt_Seq_ws_lits) (simp_all add: not_space_a)
  have ref2: "bt (Seq (Star (Cls is_space)) (Seq (Group 2 loc_ref_rx) (lits '')''))) v g =
      (case scan_loc_ref (skip_ws v) of None \<Rightarrow> []
       | Some (y, w) \<Rightarrow> bt (lits '')'') w ((2, y) # g))" for v g
    by (simp only: bt_Seq_Star_Cls_rejects [OF rejects_loc_ref_space] skip_ws_def [symmetric]
        bt_Seq_Group_loc_ref [OF rejects_paren_digit])
  have "bt callsite_pattern s [] =
        (case lit ''callsite('' s of None \<Rightarrow> []
         | Some t \<Rightarrow>
            (case scan_loc_ref t of None \<Rightarrow> []
             | Some (x, u) \<Rightarrow>
                (case lit ''at'' (skip_ws u) of None \<Rightarrow> []
                 | Some v \<Rightarrow>
                    (case scan_loc_ref (skip_ws v) of None \<Rightarrow> []
                     | Some (y, w) \<Rightarrow> bt (lits '')'') w [(2, y), (1, x)]))))"
    unfolding callsite_pattern_def bt_Seq_lits bt_Seq_Group_loc_ref [OF at] ws ref2
    by (simp add: lit_eq del: bt_Seq)
  then show ?thesis
    by (simp add: match_callsite_def bt_lits lit_eq del: bt_Seq split: option.splits)
qed

subsection \<open>The marker\<close>

lemma first_loc_marker_pattern:
  "map_option snd (first (bt loc_marker_pattern s [])) = map_option (\<lambda>x. [(1, x)]) (match_loc_marker s)"
proof -
  have "bt loc_marker_pattern s [] =
        (case lit ''loc('' s of None \<Rightarrow> []
         | Some t \<Rightarrow>
            (case scan_loc_ref t of None \<Rightarrow> []
             | Some (x, u) \<Rightarrow> bt (lits '')'') u [(1, x)]))"
    unfolding loc_marker_pattern_def bt_Seq_lits bt_Seq_Group_loc_ref [OF rejects_paren_digit]
    by (simp add: lit_eq del: bt_Seq)
  then show ?thesis
    by (simp add: match_loc_marker_def bt_lits lit_eq del: bt_Seq split: option.splits)
qed

subsection \<open>The frame\<close>

lemma first_frame_tail:
  "first (bt frame_tail_rx t h) =
     (case lit '':'' t of None \<Rightarrow> None
      | Some t' \<Rightarrow>
          (if takeWhile (\<lambda>c. c \<noteq> CHR ''@'') t' = [] then None
           else (case lit ''@'' (dropWhile (\<lambda>c. c \<noteq> CHR ''@'') t') of None \<Rightarrow> None
                 | Some u \<Rightarrow>
                     (case digits_plus u of None \<Rightarrow> None
                      | Some (ds, rest) \<Rightarrow> Some (rest, (2, ds) # h)))))"
proof -
  have at: "rejects (Seq (Lit CHR ''@'') r) (\<lambda>c. c \<noteq> CHR ''@'')" for r
    by (intro rejects_Seq rejects_Lit) simp
  have "bt frame_tail_rx t h =
        (case t of [] \<Rightarrow> []
         | c # t' \<Rightarrow> if c = CHR '':'' then
             (case t' of [] \<Rightarrow> []
              | d # u \<Rightarrow> if d \<noteq> CHR ''@'' then
                  bt (Seq (Lit CHR ''@'') (Group 2 (plus (Cls is_digit))))
                     (dropWhile (\<lambda>c. c \<noteq> CHR ''@'') u) h
                  else [])
           else [])"
    unfolding frame_tail_rx_def
    by (cases t) (simp_all only: bt_Seq_Lit bt_Seq_plus_Cls_rejects [OF at], simp_all)
  moreover have "first (bt (Seq (Lit CHR ''@'') (Group 2 (plus (Cls is_digit)))) w h) =
      (case lit ''@'' w of None \<Rightarrow> None
       | Some u \<Rightarrow> (case digits_plus u of None \<Rightarrow> None | Some (ds, rest) \<Rightarrow> Some (rest, (2, ds) # h)))"
    for w
  proof (cases w)
    case (Cons a v)
    then show ?thesis
      by (cases v) (simp_all add: bt_Seq_Lit first_Group_plus_Cls digits_plus_def Let_def
          del: bt_Seq bt_Group)
  qed (simp add: bt_Seq_Lit del: bt_Seq)
  ultimately show ?thesis
    by (cases t rule: remdups_adj.cases) (simp_all add: lit_eq del: bt_Seq bt_Group)
qed

lemma frame_tail_None: "first (bt frame_tail_rx t h) = None \<longleftrightarrow> match_frame_tail t = None"
  by (simp add: first_frame_tail match_frame_tail_def lit_eq split: option.splits)

text \<open>The groups of a match of the tail after a path \<open>p\<close>: \<open>p\<close> and the line number.\<close>

abbreviation frame_groups :: "(string \<times> groups) option \<Rightarrow> (string \<times> nat) option" where
  "frame_groups m \<equiv>
     map_option (\<lambda>(p, ds). (p, nat_of_digits ds)) (match_groups (map_option (\<lambda>(t, g). (g, t)) m) 1 2)"

lemma frame_tail_groups:
  "frame_groups (first (bt frame_tail_rx t [(1, p)])) = map_option (\<lambda>n. (p, n)) (match_frame_tail t)"
  by (simp add: first_frame_tail match_frame_tail_def match_groups_def match_group_def lit_eq
      split: option.splits)

lemma frame_desc:
  "frame_groups (first (concat (map (\<lambda>k. bt frame_tail_rx (drop k u) [(1, c # take k u)])
                                  (rev [0..<Suc k])))) =
   match_frame_from (c # u) (Suc k)"
proof (induction k)
  case 0
  show ?case
    using frame_tail_groups [of u "[c]"] frame_tail_None [of u "[(1, [c])]"]
    by (cases "match_frame_tail u") (simp_all add: match_groups_def match_group_def)
next
  case (Suc k)
  let ?f = "\<lambda>k. bt frame_tail_rx (drop k u) [(1, c # take k u)]"
  have split: "first (concat (map ?f (rev [0..<Suc (Suc k)]))) =
       (case first (?f (Suc k)) of None \<Rightarrow> first (concat (map ?f (rev [0..<Suc k]))) | Some x \<Rightarrow> Some x)"
  proof -
    have "rev [0..<Suc (Suc k)] = Suc k # rev [0..<Suc k]" by simp
    then show ?thesis by (simp only: list.map concat.simps first_append)
  qed
  show ?case
  proof (cases "match_frame_tail (drop (Suc k) u)")
    case None
    then have "first (?f (Suc k)) = None" by (simp only: frame_tail_None)
    with None Suc.IH show ?thesis by (simp only: split) simp
  next
    case (Some n)
    then have "first (?f (Suc k)) \<noteq> None" by (simp only: frame_tail_None) simp
    then obtain x where x: "first (?f (Suc k)) = Some x" by blast
    have "frame_groups (first (?f (Suc k))) = Some (c # take (Suc k) u, n)"
      using frame_tail_groups [of "drop (Suc k) u" "c # take (Suc k) u"] Some by simp
    with x Some show ?thesis by (simp only: split) simp
  qed
qed

lemma first_frame_pattern: "frame_groups (first (bt frame_pattern s [])) = extract_file_and_line s"
proof (cases s)
  case Nil
  then show ?thesis by (simp add: frame_pattern_def extract_file_and_line_def bt_Group_plus_Cls)
next
  case (Cons c u)
  show ?thesis
  proof (cases "c = CHR ''\<newline>''")
    case True
    with Cons show ?thesis
      by (simp add: frame_pattern_def extract_file_and_line_def bt_Group_plus_Cls del: bt_Group)
  next
    case False
    then have "bt frame_pattern s [] =
        concat (map (\<lambda>k. bt frame_tail_rx (drop k u) [(1, c # take k u)])
          (rev [0..<Suc (length (takeWhile (\<lambda>c. c \<noteq> CHR ''\<newline>'') u))]))"
      by (simp add: Cons frame_pattern_def bt_Group_plus_Cls comp_def del: bt_Group upt_Suc)
    with Cons False show ?thesis
      by (simp only: frame_desc) (simp add: extract_file_and_line_def)
  qed
qed

lemma re_match_loc_marker:
  "match_group (re_match loc_marker_pattern s) 1 = match_loc_marker s \<and>
   (re_match loc_marker_pattern s = None \<longleftrightarrow> match_loc_marker s = None)"
  using first_loc_marker_pattern [of s]
  by (cases "first (bt loc_marker_pattern s [])"; cases "match_loc_marker s")
    (auto simp: re_match_def match_group_def)

subsection \<open>The scanners are the source's regular expressions\<close>

text \<open>
  C23. The definition-line scanner of \<open>parse_location_mappings\<close> is
  \<open>re.compile(r'(#loc\d+)\s*=\s*loc\((.*)\)').match\<close>: on every string it
  matches exactly when Python's backtracking matcher does, and returns the
  same two groups.
\<close>

theorem match_loc_def_regex:
  "match_loc_def s = match_groups (re_match loc_def_pattern s) 1 2"
  using match_groups_first [OF first_loc_def_pattern] by simp

text \<open>
  C24. The callsite scanner of \<open>resolve_loc_reference\<close> is
  \<open>re.compile(r'callsite\((#loc\d+)\s*at\s*(#loc\d+)\)').match\<close>, groups
  included.
\<close>

theorem match_callsite_regex:
  "match_callsite s = match_groups (re_match callsite_pattern s) 1 2"
  using match_groups_first [OF first_callsite_pattern] by simp

text \<open>
  C25. \<open>extract_loc_reference\<close> is
  \<open>re.compile(r'loc\((#loc\d+)\)').search(line).group(1)\<close>: the leftmost
  match of the marker pattern, \<open>None\<close> when there is none.
\<close>

theorem extract_loc_reference_regex:
  "extract_loc_reference l = match_group (re_search loc_marker_pattern l) 1"
proof (induction l)
  case Nil
  then show ?case using re_match_loc_marker [of "[]"] by simp
next
  case (Cons c cs)
  then show ?case
    using re_match_loc_marker [of "c # cs"]
    by (cases "re_match loc_marker_pattern (c # cs)") (auto split: option.splits)
qed

text \<open>
  C26. \<open>extract_file_and_line\<close> is \<open>re.compile(r'(.+):[^@]+@(\d+)').match\<close>
  followed by \<open>(group(1), int(group(2)))\<close>: the backtracking of the greedy
  \<open>(.+)\<close> over the colons of the frame gives the same path and line as the
  model's search from the longest candidate down.
\<close>

theorem extract_file_and_line_regex:
  "extract_file_and_line s =
   map_option (\<lambda>(p, ds). (p, nat_of_digits ds)) (match_groups (re_match frame_pattern s) 1 2)"
  using first_frame_pattern [of s] by (simp add: re_match_def)

end
