(* ===== verification/Threads.thy ===== *)
theory Threads
  imports Frame
begin

text \<open>
  Concurrent calls of \<open>attribute_ttgir_frame_up\<close> sharing the module-level
  cache.  A call is cut at the statements that touch shared state: the read
  of the IR line (line 86), the membership test on the cache (line 89), the
  \<open>open\<close> and parse (line 90--91), the store into the cache (line 91), and
  the cache lookup (line 93); what lies between is local.  A system is the
  files, the cache and a list of threads; a schedule is the sequence of
  thread steps, file writes and file removals, run in order.
\<close>

subsection \<open>The program points of one call\<close>

datatype thread =
    Start string
  | At_check string string "string option"
  | At_open string string "string option"
  | At_store string string "string option" loc_map
  | At_lookup string string "string option"
  | Finished string "py_error + string"

text \<open>One atomic step of a thread against the files and the cache: the new thread state and cache.\<close>

fun thread_step :: "file_system \<Rightarrow> loc_cache \<Rightarrow> thread \<Rightarrow> thread \<times> loc_cache" where
  "thread_step fs c (Start input_frame) =
     (case extract_file_and_line input_frame of
        Some (file_path, line_number) \<Rightarrow>
          if file_path \<noteq> [] \<and> sublist ''ttgir'' file_path then
            (case get_line_from_file fs file_path line_number of
               Inl e \<Rightarrow> (Finished input_frame (Inl e), c)
             | Inr line_content \<Rightarrow> (At_check input_frame file_path line_content, c))
          else (Finished input_frame (Inr input_frame), c)
      | None \<Rightarrow> (Finished input_frame (Inr input_frame), c))"
| "thread_step fs c (At_check input_frame file_path line_content) =
     (if c file_path = None then (At_open input_frame file_path line_content, c)
      else (At_lookup input_frame file_path line_content, c))"
| "thread_step fs c (At_open input_frame file_path line_content) =
     (case open_file fs file_path of
        Inl e \<Rightarrow> (Finished input_frame (Inl e), c)
      | Inr content \<Rightarrow>
          (At_store input_frame file_path line_content (parse_location_mappings (read_lines content)), c))"
| "thread_step fs c (At_store input_frame file_path line_content m) =
     (At_lookup input_frame file_path line_content, c(file_path \<mapsto> m))"
| "thread_step fs c (At_lookup input_frame file_path line_content) =
     (case c file_path of
        None \<Rightarrow> (Finished input_frame (Inl KeyError), c)
      | Some m \<Rightarrow>
          (Finished input_frame
             (case line_content of
                None \<Rightarrow> Inl TypeError
              | Some line \<Rightarrow>
                  (case get_source_location_from_line line m of
                     None \<Rightarrow> Inl AttributeError
                   | Some s \<Rightarrow> Inr (format_location s))), c))"
| "thread_step fs c (Finished input_frame r) = (Finished input_frame r, c)"

text \<open>What a thread returned or raised, once it has finished.\<close>

fun result_of :: "thread \<Rightarrow> (py_error + string) option" where
  "result_of (Finished _ r) = Some r"
| "result_of _ = None"

subsection \<open>Systems and schedules\<close>

record system =
  sfiles :: file_system
  scache :: loc_cache
  threads :: "thread list"

datatype sched_event = Run nat | Write string string | Remove string

fun sys_step :: "system \<Rightarrow> sched_event \<Rightarrow> system" where
  "sys_step s (Run i) =
     (if i < length (threads s) then
        (case thread_step (sfiles s) (scache s) (threads s ! i) of
           (t, c) \<Rightarrow> s\<lparr>scache := c, threads := (threads s)[i := t]\<rparr>)
      else s)"
| "sys_step s (Write p content) = s\<lparr>sfiles := (sfiles s)(p \<mapsto> text_file content)\<rparr>"
| "sys_step s (Remove p) = s\<lparr>sfiles := (sfiles s)(p := None)\<rparr>"

definition sys_run :: "system \<Rightarrow> sched_event list \<Rightarrow> system" where
  "sys_run s es = foldl sys_step s es"

definition is_run :: "sched_event \<Rightarrow> bool" where
  "is_run e \<longleftrightarrow> (case e of Run _ \<Rightarrow> True | _ \<Rightarrow> False)"

subsection \<open>Invariant of a thread against fixed files\<close>

text \<open>
  What a thread at each point knows, when the files do not change: the path
  and line it read are those of its frame, a parsed table is the file's, a
  thread about to look up has its file in the cache, and a finished thread
  holds the specified result.
\<close>

definition frame_read :: "file_system \<Rightarrow> string \<Rightarrow> string \<Rightarrow> string option \<Rightarrow> bool" where
  "frame_read fs f p lc \<longleftrightarrow>
     (\<exists>n. extract_file_and_line f = Some (p, n) \<and> p \<noteq> [] \<and> sublist ''ttgir'' p \<and>
          get_line_from_file fs p n = Inr lc)"

fun thread_inv :: "file_system \<Rightarrow> loc_cache \<Rightarrow> thread \<Rightarrow> bool" where
  "thread_inv fs c (Start f) = True"
| "thread_inv fs c (At_check f p lc) = frame_read fs f p lc"
| "thread_inv fs c (At_open f p lc) = frame_read fs f p lc"
| "thread_inv fs c (At_store f p lc m) =
     (frame_read fs f p lc \<and> map_option (\<lambda>content. parse_location_mappings (read_lines content)) (file_text fs p) = Some m)"
| "thread_inv fs c (At_lookup f p lc) = (frame_read fs f p lc \<and> c p \<noteq> None)"
| "thread_inv fs c (Finished f r) = (r = attribute_spec fs f)"

fun frame_of :: "thread \<Rightarrow> string" where
  "frame_of (Start f) = f"
| "frame_of (At_check f _ _) = f"
| "frame_of (At_open f _ _) = f"
| "frame_of (At_store f _ _ _) = f"
| "frame_of (At_lookup f _ _) = f"
| "frame_of (Finished f _) = f"

text \<open>
  What holds whatever the files do: a thread about to look up has its file
  in the cache, and no finished thread raised \<open>KeyError\<close> or \<open>AttributeError\<close>.
\<close>

fun thread_safe :: "loc_cache \<Rightarrow> thread \<Rightarrow> bool" where
  "thread_safe c (At_lookup f p lc) = (c p \<noteq> None)"
| "thread_safe c (Finished f r) = (r \<noteq> Inl KeyError \<and> r \<noteq> Inl AttributeError)"
| "thread_safe c _ = True"

definition sys_safe :: "system \<Rightarrow> bool" where
  "sys_safe s \<longleftrightarrow> (\<forall>t \<in> set (threads s). thread_safe (scache s) t)"

definition sys_inv :: "system \<Rightarrow> bool" where
  "sys_inv s \<longleftrightarrow> cache_coherent (file_text (sfiles s)) (scache s) \<and> (\<forall>t \<in> set (threads s). thread_inv (sfiles s) (scache s) t)"

subsection \<open>One step of a thread\<close>

lemma thread_step_frame: "frame_of (fst (thread_step fs c t)) = frame_of t"
  by (cases t) (auto split: option.split sum.split)

lemma result_of_Some: "result_of t = Some r \<longleftrightarrow> t = Finished (frame_of t) r"
  by (cases t) auto

lemma thread_step_dom: "dom c \<subseteq> dom (snd (thread_step fs c t))"
  by (cases t) (auto split: option.split sum.split)

lemma thread_inv_mono:
  "thread_inv fs c t \<Longrightarrow> dom c \<subseteq> dom c' \<Longrightarrow> thread_inv fs c' t"
  by (cases t) auto

lemma thread_step_coherent:
  "cache_coherent (file_text fs) c \<Longrightarrow> thread_inv fs c t \<Longrightarrow> cache_coherent (file_text fs) (snd (thread_step fs c t))"
  by (cases t) (auto simp: cache_coherent_def split: option.split sum.split)

text \<open>A thread that finishes returns what the sequential call would return against the same cache.\<close>

lemma thread_step_Start_finished:
  "fst (thread_step fs c (Start f)) = Finished f' r \<Longrightarrow>
   f' = f \<and> r = fst (attribute_ttgir_frame_up fs c f)"
  by (auto simp: attribute_ttgir_frame_up_def split: option.splits sum.splits if_splits)

lemma thread_step_lookup:
  assumes "frame_read fs f p lc" and "c p = Some m"
  shows "fst (thread_step fs c (At_lookup f p lc)) = Finished f (fst (attribute_ttgir_frame_up fs c f))"
  using assms by (auto simp: frame_read_def attribute_ttgir_frame_up_def load_location_map_def
      split: option.split)

lemma frame_read_file:
  "frame_read fs f p lc \<Longrightarrow> \<exists>content. open_file fs p = Inr content"
  by (cases "open_file fs p") (auto simp: frame_read_def get_line_from_file_def)

lemma thread_step_inv:
  assumes "cache_coherent (file_text fs) c" and "thread_inv fs c t"
  shows "thread_inv fs (snd (thread_step fs c t)) (fst (thread_step fs c t))"
proof (cases t)
  case (Start f)
  show ?thesis
  proof (cases "fst (thread_step fs c t)")
    case (Finished f' r)
    with Start have "f' = f \<and> r = fst (attribute_ttgir_frame_up fs c f)"
      by (simp add: thread_step_Start_finished)
    with Finished assms(1) show ?thesis by (simp add: attribute_eq_spec)
  qed (use Start in \<open>auto simp: frame_read_def split: option.splits sum.splits if_splits\<close>)
next
  case (At_open f p lc)
  with assms(2) obtain content where "open_file fs p = Inr content"
    using frame_read_file [of fs f p lc] by auto
  with At_open assms(2) show ?thesis by simp
next
  case (At_lookup f p lc)
  with assms(2) obtain m where "c p = Some m" by auto
  with At_lookup assms thread_step_lookup [of fs f p lc c m] show ?thesis
    by (simp add: attribute_eq_spec)
qed (use assms(2) in auto)

subsection \<open>Runs of a system\<close>

lemma sys_run_Nil [simp]: "sys_run s [] = s"
  by (simp add: sys_run_def)

lemma sys_run_Cons [simp]: "sys_run s (e # es) = sys_run (sys_step s e) es"
  by (simp add: sys_run_def)

lemma sys_step_length [simp]: "length (threads (sys_step s e)) = length (threads s)"
  by (cases e) (auto split: prod.split)

lemma sys_step_files: "is_run e \<Longrightarrow> sfiles (sys_step s e) = sfiles s"
  by (cases e) (auto simp: is_run_def split: prod.split)

lemma sys_run_files: "\<forall>e \<in> set es. is_run e \<Longrightarrow> sfiles (sys_run s es) = sfiles s"
  by (induction es arbitrary: s) (simp_all add: sys_step_files)

lemma sys_step_inv:
  assumes "sys_inv s" and "is_run e"
  shows "sys_inv (sys_step s e)"
proof -
  obtain i where e: "e = Run i" using assms(2) by (cases e) (auto simp: is_run_def)
  show ?thesis
  proof (cases "i < length (threads s)")
    case True
    let ?fs = "sfiles s" and ?c = "scache s" and ?t = "threads s ! i"
    have t: "thread_inv ?fs ?c ?t" using assms(1) True by (simp add: sys_inv_def)
    have coh: "cache_coherent (file_text ?fs) ?c" using assms(1) by (simp add: sys_inv_def)
    have "\<forall>u \<in> set (threads s). thread_inv ?fs ?c u"
      using assms(1) by (simp add: sys_inv_def)
    then have "\<forall>u \<in> set (threads s). thread_inv ?fs (snd (thread_step ?fs ?c ?t)) u"
      using thread_inv_mono [OF _ thread_step_dom] by blast
    moreover have "thread_inv ?fs (snd (thread_step ?fs ?c ?t)) (fst (thread_step ?fs ?c ?t))"
      using thread_step_inv [OF coh t] .
    ultimately have "\<forall>u \<in> set ((threads s)[i := fst (thread_step ?fs ?c ?t)]).
                       thread_inv ?fs (snd (thread_step ?fs ?c ?t)) u"
      by (rule ball_list_update)
    moreover have "cache_coherent (file_text ?fs) (snd (thread_step ?fs ?c ?t))"
      using thread_step_coherent [OF coh t] .
    ultimately show ?thesis using True e by (simp add: sys_inv_def prod.case_eq_if)
  qed (use assms(1) e in simp)
qed

lemma sys_run_inv:
  "sys_inv s \<Longrightarrow> \<forall>e \<in> set es. is_run e \<Longrightarrow> sys_inv (sys_run s es)"
  by (induction es arbitrary: s) (simp_all add: sys_step_inv)

lemma sys_step_frames: "map frame_of (threads (sys_step s e)) = map frame_of (threads s)"
  by (cases e) (auto simp: thread_step_frame list_eq_iff_nth_eq nth_list_update prod.case_eq_if)

lemma sys_run_frames: "map frame_of (threads (sys_run s es)) = map frame_of (threads s)"
  by (induction es arbitrary: s) (simp_all add: sys_step_frames)

lemma sys_run_length [simp]: "length (threads (sys_run s es)) = length (threads s)"
  by (induction es arbitrary: s) simp_all

lemma sys_inv_start:
  "cache_coherent (file_text fs) c \<Longrightarrow> sys_inv \<lparr>sfiles = fs, scache = c, threads = map Start frames\<rparr>"
  by (auto simp: sys_inv_def)

lemma sys_run_frame_nth:
  "i < length (threads s) \<Longrightarrow> frame_of (threads (sys_run s es) ! i) = frame_of (threads s ! i)"
  using arg_cong [OF sys_run_frames [of s es], of "\<lambda>xs. xs ! i"] by simp

subsection \<open>Properties of concurrent calls\<close>

text \<open>
  C31. The race on first population of the cache is harmless while the files
  do not change: under every interleaving of the calls' statements, every
  call that has returned returned the specified result for its frame, and
  the cache agrees with the files.
\<close>

theorem concurrent_calls_refine_spec:
  assumes "cache_coherent (file_text fs) c" and "\<forall>e \<in> set es. is_run e" and "i < length frames"
    and "result_of (threads (sys_run \<lparr>sfiles = fs, scache = c, threads = map Start frames\<rparr> es) ! i) = Some r"
  shows "r = attribute_spec fs (frames ! i) \<and>
         cache_coherent (file_text fs) (scache (sys_run \<lparr>sfiles = fs, scache = c, threads = map Start frames\<rparr> es))"
proof -
  let ?s = "sys_run \<lparr>sfiles = fs, scache = c, threads = map Start frames\<rparr> es"
  have inv: "sys_inv ?s" using sys_run_inv [OF sys_inv_start [OF assms(1)] assms(2)] .
  have files: "sfiles ?s = fs" using sys_run_files [OF assms(2)] by simp
  have len: "i < length (threads ?s)" using assms(3) by simp
  have fr: "frame_of (threads ?s ! i) = frames ! i"
    using sys_run_frame_nth [where s = "\<lparr>sfiles = fs, scache = c, threads = map Start frames\<rparr>"] assms(3)
    by simp
  have t: "threads ?s ! i = Finished (frames ! i) r"
    using assms(4) fr result_of_Some by metis
  have "thread_inv fs (scache ?s) (threads ?s ! i)"
    using inv files nth_mem [OF len] unfolding sys_inv_def by auto
  with t have "r = attribute_spec fs (frames ! i)" by simp
  moreover have "cache_coherent (file_text fs) (scache ?s)" using inv files by (simp add: sys_inv_def)
  ultimately show ?thesis by blast
qed

theorem concurrent_calls_refine_spec_witness:
  "cache_coherent (file_text [''k.ttgir'' \<mapsto> text_file ''a loc(#loc1)\<newline>#loc1 = loc(\"x.py\":3:4)'']) Map.empty \<and>
   list_all is_run [Run 0, Run 1, Run 0, Run 1, Run 0, Run 1, Run 0, Run 1, Run 0, Run 1] \<and>
   0 < length [''k.ttgir:f@1'', ''k.ttgir:g@1''] \<and>
   result_of (threads (sys_run \<lparr>sfiles = [''k.ttgir'' \<mapsto> text_file ''a loc(#loc1)\<newline>#loc1 = loc(\"x.py\":3:4)''],
       scache = Map.empty, threads = map Start [''k.ttgir:f@1'', ''k.ttgir:g@1'']\<rparr>
     [Run 0, Run 1, Run 0, Run 1, Run 0, Run 1, Run 0, Run 1, Run 0, Run 1]) ! 0) = Some (Inr ''x.py_@3_4'') \<and>
   Inr ''x.py_@3_4'' = attribute_spec [''k.ttgir'' \<mapsto> text_file ''a loc(#loc1)\<newline>#loc1 = loc(\"x.py\":3:4)'']
     ([''k.ttgir:f@1'', ''k.ttgir:g@1''] ! 0)"
proof -
  let ?fs = "[''k.ttgir'' \<mapsto> text_file ''a loc(#loc1)\<newline>#loc1 = loc(\"x.py\":3:4)'']"
  let ?es = "[Run 0, Run 1, Run 0, Run 1, Run 0, Run 1, Run 0, Run 1, Run 0, Run 1]"
  let ?frames = "[''k.ttgir:f@1'', ''k.ttgir:g@1'']"
  have h1: "cache_coherent (file_text ?fs) Map.empty" by (simp add: cache_coherent_def)
  have h2: "\<forall>e \<in> set ?es. is_run e" by (simp add: is_run_def)
  have h3: "0 < length ?frames" by simp
  have h2': "list_all is_run ?es" by (simp add: is_run_def)
  have h4: "result_of (threads (sys_run \<lparr>sfiles = ?fs, scache = Map.empty, threads = map Start ?frames\<rparr> ?es) ! 0) =
            Some (Inr ''x.py_@3_4'')"
    by code_simp
  have "Inr ''x.py_@3_4'' = attribute_spec ?fs (?frames ! 0)"
    using concurrent_calls_refine_spec [where fs = ?fs and c = Map.empty and es = ?es and i = 0
        and frames = ?frames and r = "Inr ''x.py_@3_4''"] h1 h2 h3 h4 by blast
  with h1 h2' h3 h4 show ?thesis by blast
qed

text \<open>
  C32. The file is opened twice, at line 86 for the line and at line 90 for
  the table.  When the file is rewritten between the two, a call that finds
  no table in the cache returns the line of the old content looked up in
  the table of the new content (\<open>attribute_spec_from\<close> with the line read
  from the old files and the table parsed from the new text), and caches
  that table.
\<close>

theorem torn_read_across_write:
  assumes "extract_file_and_line f = Some (p, n)" and "sublist ''ttgir'' p"
    and "open_file fs p = Inr old" and "c p = None"
  shows "sys_run \<lparr>sfiles = fs, scache = c, threads = [Start f]\<rparr>
           [Run 0, Write p new, Run 0, Run 0, Run 0, Run 0] =
         \<lparr>sfiles = fs(p \<mapsto> text_file new), scache = c(p \<mapsto> parse_location_mappings (read_lines new)),
          threads = [Finished f (attribute_spec_from fs [p \<mapsto> new] f)]\<rparr>"
proof -
  have "p \<noteq> []" using extract_file_and_line_prefix [OF assms(1)] by simp
  with assms show ?thesis
    by (simp add: get_line_from_file_def attribute_spec_from_def get_source_location_resolved
        split: option.split)
qed

theorem torn_read_across_write_witness:
  "extract_file_and_line ''k.ttgir:f@1'' = Some (''k.ttgir'', 1) \<and> sublist ''ttgir'' ''k.ttgir'' \<and>
   open_file [''k.ttgir'' \<mapsto> text_file ''a loc(#loc1)\<newline>#loc1 = loc(\"x.py\":1:2)''] ''k.ttgir'' =
     Inr ''a loc(#loc1)\<newline>#loc1 = loc(\"x.py\":1:2)'' \<and>
   (Map.empty :: loc_cache) ''k.ttgir'' = None \<and>
   map result_of (threads (sys_run
      \<lparr>sfiles = [''k.ttgir'' \<mapsto> text_file ''a loc(#loc1)\<newline>#loc1 = loc(\"x.py\":1:2)''], scache = Map.empty,
       threads = [Start ''k.ttgir:f@1'']\<rparr>
      [Run 0, Write ''k.ttgir'' ''b\<newline>#loc1 = loc(\"y.py\":3:4)'', Run 0, Run 0, Run 0, Run 0])) =
     [Some (Inr ''y.py_@3_4'')] \<and>
   attribute_spec [''k.ttgir'' \<mapsto> text_file ''a loc(#loc1)\<newline>#loc1 = loc(\"x.py\":1:2)''] ''k.ttgir:f@1'' =
     Inr ''x.py_@1_2'' \<and>
   attribute_spec [''k.ttgir'' \<mapsto> text_file ''b\<newline>#loc1 = loc(\"y.py\":3:4)''] ''k.ttgir:f@1'' =
     Inr ''No location found''"
proof -
  let ?fs = "[''k.ttgir'' \<mapsto> text_file ''a loc(#loc1)\<newline>#loc1 = loc(\"x.py\":1:2)'']"
  let ?new = "''b\<newline>#loc1 = loc(\"y.py\":3:4)''"
  have e: "extract_file_and_line ''k.ttgir:f@1'' = Some (''k.ttgir'', 1)" by code_simp
  have t: "sublist ''ttgir'' ''k.ttgir''" by code_simp
  have o: "open_file ?fs ''k.ttgir'' = Inr ''a loc(#loc1)\<newline>#loc1 = loc(\"x.py\":1:2)''" by simp
  have c: "(Map.empty :: loc_cache) ''k.ttgir'' = None" by simp
  have v: "attribute_spec_from ?fs [''k.ttgir'' \<mapsto> ?new] ''k.ttgir:f@1'' = Inr ''y.py_@3_4''" by code_simp
  have r: "map result_of (threads (sys_run \<lparr>sfiles = ?fs, scache = Map.empty, threads = [Start ''k.ttgir:f@1'']\<rparr>
      [Run 0, Write ''k.ttgir'' ?new, Run 0, Run 0, Run 0, Run 0])) = [Some (Inr ''y.py_@3_4'')]"
  proof -
    have "threads (sys_run \<lparr>sfiles = ?fs, scache = Map.empty, threads = [Start ''k.ttgir:f@1'']\<rparr>
            [Run 0, Write ''k.ttgir'' ?new, Run 0, Run 0, Run 0, Run 0]) =
          [Finished ''k.ttgir:f@1'' (attribute_spec_from ?fs [''k.ttgir'' \<mapsto> ?new] ''k.ttgir:f@1'')]"
      unfolding torn_read_across_write [where new = ?new, OF e t o c] by (simp only: system.select_convs)
    then show ?thesis by (simp only: v list.map result_of.simps)
  qed
  have old: "attribute_spec ?fs ''k.ttgir:f@1'' = Inr ''x.py_@1_2''" by code_simp
  have new: "attribute_spec [''k.ttgir'' \<mapsto> text_file ?new] ''k.ttgir:f@1'' = Inr ''No location found''"
    by code_simp
  from e t o c r old new show ?thesis by blast
qed

subsection \<open>Calls that never raise KeyError or AttributeError\<close>

lemma thread_safe_mono:
  "thread_safe c t \<Longrightarrow> dom c \<subseteq> dom c' \<Longrightarrow> thread_safe c' t"
  by (cases t) auto

lemma thread_step_safe:
  assumes "thread_safe c t"
  shows "thread_safe (snd (thread_step fs c t)) (fst (thread_step fs c t))"
proof (cases t)
  case (Start f)
  then show ?thesis
    by (auto dest: open_file_errors simp: get_line_from_file_def split: option.split sum.splits)
next
  case (At_open f p lc)
  then show ?thesis by (auto dest: open_file_errors split: sum.split)
next
  case (At_lookup f p lc)
  with assms obtain m where "c p = Some m" by auto
  with At_lookup show ?thesis by (simp add: get_source_location_resolved split: option.split)
qed (use assms in auto)

lemma sys_step_safe:
  assumes "sys_safe s"
  shows "sys_safe (sys_step s e)"
proof (cases e)
  case (Run i)
  show ?thesis
  proof (cases "i < length (threads s)")
    case True
    let ?fs = "sfiles s" and ?c = "scache s" and ?t = "threads s ! i"
    have all: "\<forall>u \<in> set (threads s). thread_safe ?c u" using assms by (simp add: sys_safe_def)
    then have "\<forall>u \<in> set (threads s). thread_safe (snd (thread_step ?fs ?c ?t)) u"
      using thread_safe_mono [OF _ thread_step_dom] by blast
    moreover have "thread_safe (snd (thread_step ?fs ?c ?t)) (fst (thread_step ?fs ?c ?t))"
      using all True by (simp add: thread_step_safe)
    ultimately have "\<forall>u \<in> set ((threads s)[i := fst (thread_step ?fs ?c ?t)]).
                       thread_safe (snd (thread_step ?fs ?c ?t)) u"
      by (rule ball_list_update)
    with True Run show ?thesis by (simp add: sys_safe_def prod.case_eq_if)
  qed (use assms Run in simp)
qed (use assms in \<open>simp_all add: sys_safe_def\<close>)

lemma sys_run_safe: "sys_safe s \<Longrightarrow> sys_safe (sys_run s es)"
  by (induction es arbitrary: s) (simp_all add: sys_step_safe)

text \<open>
  C19. Under every schedule, writes and removals of files included, no call
  raises \<open>KeyError\<close> at the lookup of line 93 (an entry, once stored, is never
  removed, so a thread that saw or stored its file's table finds it) and
  none raises \<open>AttributeError\<close> (the line's resolver always returns a
  string); a file removed after line 86 surfaces as the \<open>open\<close> error of
  line 90.
\<close>

theorem concurrent_calls_no_lookup_error:
  assumes "i < length frames"
    and "result_of (threads (sys_run \<lparr>sfiles = fs, scache = c, threads = map Start frames\<rparr> es) ! i) = Some r"
  shows "r \<noteq> Inl KeyError \<and> r \<noteq> Inl AttributeError"
proof -
  let ?s = "sys_run \<lparr>sfiles = fs, scache = c, threads = map Start frames\<rparr> es"
  have "sys_safe \<lparr>sfiles = fs, scache = c, threads = map Start frames\<rparr>" by (auto simp: sys_safe_def)
  then have "sys_safe ?s" by (rule sys_run_safe)
  moreover have "i < length (threads ?s)" using assms(1) by simp
  ultimately have "thread_safe (scache ?s) (threads ?s ! i)" unfolding sys_safe_def by (metis nth_mem)
  moreover have "threads ?s ! i = Finished (frame_of (threads ?s ! i)) r"
    using assms(2) result_of_Some by blast
  ultimately show ?thesis by (metis thread_safe.simps(2))
qed

theorem concurrent_calls_no_lookup_error_witness:
  "0 < length [''k.ttgir:f@1''] \<and>
   result_of (threads (sys_run \<lparr>sfiles = [''k.ttgir'' \<mapsto> text_file ''a loc(#loc1)''], scache = Map.empty,
       threads = map Start [''k.ttgir:f@1'']\<rparr> [Run 0, Remove ''k.ttgir'', Run 0, Run 0]) ! 0) =
     Some (Inl FileNotFoundError) \<and>
   Inl FileNotFoundError \<noteq> (Inl KeyError :: py_error + string) \<and>
   Inl FileNotFoundError \<noteq> (Inl AttributeError :: py_error + string)"
proof -
  have h1: "0 < length [''k.ttgir:f@1'']" by simp
  have h2: "result_of (threads (sys_run \<lparr>sfiles = [''k.ttgir'' \<mapsto> text_file ''a loc(#loc1)''], scache = Map.empty,
       threads = map Start [''k.ttgir:f@1'']\<rparr> [Run 0, Remove ''k.ttgir'', Run 0, Run 0]) ! 0) =
     Some (Inl FileNotFoundError)"
    by code_simp
  show ?thesis
    using h1 h2 concurrent_calls_no_lookup_error [OF h1 h2] by blast
qed

end
