(* ===== verification/Spec2Isabelle.thy ===== *)
theory Spec2Isabelle
  imports Patterns Threads
begin

text \<open>
  \<^bold>\<open>A verification development of the Proton IR attributer.\<close>

  The program (src/third_party/proton/proton/attributer.py, one Python module)
  maps a profiler frame \<open>path:tag@line\<close> that points into a Triton GPU IR file
  (a path containing \<open>ttgir\<close>) back to the source location recorded in the
  IR's location table.  Its parts, leaf first, and the theory and definitions
  that model each:
  \<^item> Python built-ins the module relies on (\<open>str.strip\<close>, \<open>str.replace\<close>,
    \<open>dict.get\<close>, f-string formatting of \<open>None\<close>, iteration over a text file's
    lines, \<open>int\<close> of digits): theory \<open>Prelude\<close> (\<open>strip\<close>, \<open>py_replace\<close>,
    \<open>py_replace1\<close>, \<open>dict_get\<close>, \<open>py_str\<close>, \<open>split_lines\<close>, \<open>read_lines\<close>,
    \<open>nat_of_digits\<close>), with the exceptions the module can raise as the
    datatype \<open>py_error\<close>.  A file opened with \<open>open(path, 'r')\<close> is read
    in universal-newline mode (\<open>universal_newlines\<close>) and iterated over
    its lines (\<open>read_lines\<close>).  The file system maps paths to
    \<open>file_entry\<close> values, a regular file with its text or a directory,
    each readable by the process or not (after the Unix model of the
    distribution), and \<open>open_file\<close> is \<open>open(path, 'r')\<close>: the text,
    or \<open>FileNotFoundError\<close>, \<open>PermissionError\<close> or
    \<open>IsADirectoryError\<close>; \<open>file_text\<close> is the text of the readable
    files, which the cache invariants compare tables against.
  \<^item> The regular expressions: theory \<open>Scan\<close>, one scanner per fragment
    (\<open>lit\<close>, \<open>digits_plus\<close> for \<open>\d+\<close>, \<open>skip_ws\<close> for \<open>\s*\<close>,
    \<open>scan_loc_ref\<close> for \<open>(#loc\d+)\<close>).  Each pattern of the module is written
    as a sequence of them; where a greedy repetition is followed by a character
    outside its class, backtracking cannot change the match, and the scanners
    give Python's match.  The two patterns with real backtracking are modelled
    with it: \<open>(.*)\)\<close> (\<open>scan_group_paren\<close>, the last \<open>)\<close> of the line) and
    \<open>(.+):\<close> (\<open>match_frame_from\<close>, the longest group first).
  \<^item> Python's \<open>re\<close> module, the fragment the module uses: theory \<open>Regex\<close>,
    the pattern syntax \<open>rx\<close> (literals, classes, concatenation, greedy star,
    groups) and the backtracking matcher \<open>bt\<close>, which lists every match in
    the order Python's engine tries them; \<open>re_match\<close>, \<open>re_search\<close>,
    \<open>match_group\<close> are \<open>Pattern.match\<close>, \<open>Pattern.search\<close> and
    \<open>Match.group\<close>.  Theory \<open>Patterns\<close> writes the four \<open>re.compile\<close>
    patterns of lines 13, 31, 46 and 73 in that syntax
    (\<open>loc_def_pattern\<close>, \<open>callsite_pattern\<close>, \<open>loc_marker_pattern\<close>,
    \<open>frame_pattern\<close>) and proves each scanner of \<open>Scan\<close>, \<open>LocTable\<close>,
    \<open>Resolver\<close>, \<open>LineAttr\<close> and \<open>Frame\<close> equal to the matcher run on its
    pattern, so the scanners are checked against the regular expressions
    rather than trusted.
  \<^item> LocationTable, \<open>parse_location_mappings\<close> (lines 6--22): theory
    \<open>LocTable\<close>, \<open>match_loc_def\<close> for the definition-line pattern,
    \<open>parse_line\<close> for the loop body, the loop a \<open>foldl\<close>.
  \<^item> LocationResolver, \<open>resolve_loc_reference\<close> (lines 25--39): theory
    \<open>Resolver\<close>, \<open>match_callsite\<close> and the recursive \<open>resolve_loc_reference\<close>,
    a \<open>function\<close> whose termination measure is 1 on strings starting with
    \<open>callsite\<close> and 0 otherwise; its result is \<open>string option\<close>, \<open>None\<close> where
    the Python function falls off its end.
  \<^item> LineAttributor, \<open>extract_loc_reference\<close> and
    \<open>get_source_location_from_line\<close> (lines 42--60): theory \<open>LineAttr\<close>,
    \<open>re.search\<close> as a scan over the positions of the line.
  \<^item> FrameAttributor and the cache (lines 3, 63--96): theory \<open>Frame\<close>,
    \<open>extract_file_and_line\<close>, \<open>get_line_from_file\<close> (with \<open>find_line\<close> for
    the \<open>enumerate\<close> loop), \<open>format_location\<close> for the chain of
    \<open>replace\<close> calls, \<open>load_location_map\<close> for the cache lookup or fill, and
    \<open>attribute_ttgir_frame_up\<close>.  Both \<open>open\<close> calls of the module (lines 64
    and 90) go through \<open>open_file\<close>; the global \<open>location_map_cache\<close> is explicit state, taken and
    returned; a call's result is \<open>py_error + string\<close>, so that the exceptions
    the code can raise (those of \<open>open\<close>, \<open>TypeError\<close>) are values, and
    the cache is returned even when the call raises, as the global dict keeps
    what was stored before the exception.
  \<^item> The process (this theory): \<open>session\<close>, the caches reachable by any
    sequence of attributions against fixed files, and \<open>process\<close>, the states
    (files and cache) reachable when attributions interleave with writes to
    the files.
  \<^item> Concurrent calls (theory \<open>Threads\<close>): \<open>attribute_ttgir_frame_up\<close>
    cut at the statements that touch shared state, each atomic under
    Python's global interpreter lock: the read of the line (line 86), the
    test \<open>file_path not in location_map_cache\<close> (line 89), the \<open>open\<close>
    and parse (lines 90--91), the store (line 91) and the lookup (line 93).
    \<open>thread\<close> names these program points, \<open>thread_step\<close> takes one
    step; a \<open>system\<close> holds the files, the cache and the threads, and a
    schedule (\<open>sched_event\<close> list, run by \<open>sys_run\<close>) interleaves
    thread steps, file writes and file removals in any order.  A lookup that misses raises
    \<open>KeyError\<close>, which the invariant shows never happens.

  \<open>attribute_spec\<close> (theory \<open>Frame\<close>) is the abstract specification of a
  call: no cache, no resolver, the file read and parsed afresh and the line's
  first marker looked up in the table.  \<open>attribute_spec_from\<close> is the same
  with the tables parsed from given contents; \<open>cached_contents\<close> (this
  theory) is a ghost of a run that records the content each cached file had
  when its table was stored.

  What the lemmas show, by group:
  \<^item> the system (this theory): in every session the cache agrees with the
    files and a call computes exactly \<open>attribute_spec\<close> (a refinement by an
    invariant proved by rule induction); the result for an in-range line;
    a file is parsed once per process (after the first call its table is
    served from the cache whatever the files hold); only \<open>ttgir\<close> files are ever cached;
    and, when attributions and writes interleave, a call computes
    \<open>attribute_spec_from\<close> on the current files with the tables of
    \<open>cached_contents\<close> (a refinement through the ghost, whose invariant is
    proved by induction over the run): after a file is rewritten, the
    cache serves its old table.
  \<^item> the entry point (\<open>Frame\<close>): cache entries are never changed or dropped,
    a cached file is not parsed again, other frames pass through unchanged,
    a path \<open>open\<close> cannot open raises its error, an out-of-range line raises
    \<open>TypeError\<close> (the design says \<open>No location found\<close>), the frame split is
    greedy and round-trips, the line reader is \<open>nth\<close>, and the formatting
    removes every colon, the first one becoming \<open>_@\<close> (the design says
    \<open>:@\<close>).
  \<^item> the line (\<open>LineAttr\<close>): the search finds the leftmost marker, and
    attributing a line is a plain table lookup: the callsite branch of the
    resolver is unreachable from the entry point.
  \<^item> the resolver (\<open>Resolver\<close>): a well-formed callsite resolves caller
    first, and the function equals a non-recursive one: its recursion is at
    most one level deep, a malformed callsite gives \<open>None\<close> (the design
    says \<open>unknown\<close>), and a table value is returned without being resolved
    again (the design expects callsite chains).
  \<^item> the table (\<open>LocTable\<close>): definition lines round-trip to the table,
    every key is a well-formed reference, and a reference is bound to its
    last definition line.
  \<^item> the patterns (\<open>Patterns\<close>): each scanner returns what \<open>re.match\<close> or
    \<open>re.search\<close> returns on every input, groups included; the proofs rest
    on the \<open>Regex\<close> lemmas that a greedy run offers its lengths longest
    first and that a run followed by a pattern that cannot start inside it
    backs off to the longest run only.
  \<^item> errors and liveness: a call raises exactly what \<open>open\<close> raises for a
    \<open>ttgir\<close> path it cannot open (missing, a directory, unreadable), before
    the cache is touched, and \<open>TypeError\<close> for a missing line, and never
    \<open>AttributeError\<close> (\<open>Frame\<close>); once a frame of a readable \<open>ttgir\<close>
    file has been attributed, its table stays cached, unchanged, in every
    later state of any run (this theory).
  \<^item> concurrency (\<open>Threads\<close>): with unchanged files, every interleaving
    returns \<open>attribute_spec\<close> for each frame and keeps the cache coherent
    with the files (an invariant over the threads' program points,
    preserved by each step); a write between the two opens of one call
    makes it look the old line up in the new table, which its witness
    shows can be a location that neither version of the file gives;
    under every schedule, writes and removals included, no call raises
    \<open>KeyError\<close> at the lookup of line 93 or \<open>AttributeError\<close>.

  No fuel is needed: every loop is structural recursion over a string
  or a list, and the two non-structural recursions are proved to terminate:
  the resolver's, and the matcher \<open>bt\<close>, by the size of the pattern and then
  the length of the input (an iteration of a star must consume input, as in
  POSIX lexing; the patterns of the module never star a pattern that can
  match the empty string, so this agrees with Python).  Characters are 8-bit: strings are read as Latin-1, for which
  the classes \<open>\s\<close> and \<open>\d\<close> of Python's Unicode patterns are exactly
  \<open>is_space\<close> and \<open>is_digit\<close>; characters beyond U+00FF are not modelled.

  Not modelled: the profiler that supplies frames and consumes the result
  (outside the module), the operating system's file errors other than a
  missing file, an unreadable file or a directory: a path through a
  non-directory (\<open>NotADirectoryError\<close>; the file system is flat), I/O errors
  during a read after a successful \<open>open\<close>, and decoding errors (Python raises
  \<open>UnicodeDecodeError\<close> while iterating, at a point that depends on its read
  buffer; the text here is already decoded), interleavings finer than one statement (a file is read
  whole at each \<open>open\<close>), and the parts of \<open>re\<close> the
  module does not use (alternation, lazy quantifiers, anchors, flags).
\<close>

subsection \<open>Sessions and processes\<close>

text \<open>The caches reachable by attributions against fixed files.\<close>

inductive session :: "file_system \<Rightarrow> loc_cache \<Rightarrow> bool" for fs where
  start: "session fs location_map_cache_init"
| attribute: "session fs c \<Longrightarrow> session fs (snd (attribute_ttgir_frame_up fs c f))"

text \<open>The state of a process: the files it reads and the module's cache.\<close>

record proc_state =
  files :: file_system
  cache :: loc_cache

datatype event = Attribute string | WriteFile string string

fun proc_step :: "proc_state \<Rightarrow> event \<Rightarrow> proc_state" where
  "proc_step st (Attribute f) =
     st\<lparr>cache := snd (attribute_ttgir_frame_up (files st) (cache st) f)\<rparr>"
| "proc_step st (WriteFile p content) = st\<lparr>files := (files st)(p \<mapsto> text_file content)\<rparr>"

inductive process :: "proc_state \<Rightarrow> bool" where
  start: "process \<lparr>files = fs, cache = location_map_cache_init\<rparr>"
| step: "process st \<Longrightarrow> process (proc_step st e)"

definition proc_run :: "proc_state \<Rightarrow> event list \<Rightarrow> proc_state" where
  "proc_run st es = foldl proc_step st es"

text \<open>
  A ghost of a run: the content each cached file had at the moment its table
  was stored, computed from the same events.  Writes leave it unchanged; an
  attribution that stores a table records the content the table was parsed
  from.
\<close>

fun snap_step :: "proc_state \<times> contents \<Rightarrow> event \<Rightarrow> proc_state \<times> contents" where
  "snap_step (st, snap) e =
     (proc_step st e,
      (\<lambda>p. if cache st p = None \<and> cache (proc_step st e) p \<noteq> None then file_text (files st) p else snap p))"

definition cached_contents :: "proc_state \<Rightarrow> event list \<Rightarrow> contents" where
  "cached_contents st es = snd (foldl snap_step (st, Map.empty) es)"

subsection \<open>Invariants of sessions and processes\<close>

lemma session_empty: "session fs Map.empty"
  using session.start by (simp add: location_map_cache_init_def)

lemma process_empty: "process \<lparr>files = fs, cache = Map.empty\<rparr>"
  using process.start by (simp add: location_map_cache_init_def)

lemma session_coherent: "session fs c \<Longrightarrow> cache_coherent (file_text fs) c"
proof (induction rule: session.induct)
  case start
  then show ?case by (simp add: cache_coherent_def location_map_cache_init_def)
next
  case (attribute c f)
  from attribute.IH show ?case by (rule attribute_coherent_step)
qed

lemma attribute_cache_ttgir:
  "snd (attribute_ttgir_frame_up fs c f) p \<noteq> None \<Longrightarrow> c p \<noteq> None \<or> sublist ''ttgir'' p"
  using attribute_cache_cases [of fs c f] by (auto split: if_splits)

lemma process_run: "process st \<Longrightarrow> process (proc_run st es)"
proof (induction es arbitrary: st)
  case Nil
  then show ?case by (simp add: proc_run_def)
next
  case (Cons e es)
  from Cons.prems have "process (proc_step st e)" by (rule process.step)
  then show ?case using Cons.IH by (simp add: proc_run_def)
qed

lemma session_ttgir: "session fs c \<Longrightarrow> c p \<noteq> None \<Longrightarrow> sublist ''ttgir'' p"
proof (induction rule: session.induct)
  case start
  then show ?case by (simp add: location_map_cache_init_def)
next
  case (attribute c f)
  then show ?case using attribute_cache_ttgir by blast
qed

lemma proc_step_keeps_cache: "cache st p = Some m \<Longrightarrow> cache (proc_step st e) p = Some m"
proof (cases e)
  case (Attribute f)
  assume c: "cache st p = Some m"
  from attribute_cache_cases [of "files st" "cache st" f] c
  have "snd (attribute_ttgir_frame_up (files st) (cache st) f) p = Some m"
    by (auto split: if_splits)
  with Attribute show ?thesis by simp
next
  case (WriteFile q content)
  assume "cache st p = Some m"
  with WriteFile show ?thesis by simp
qed

lemma proc_run_keeps_cache: "cache st p = Some m \<Longrightarrow> cache (proc_run st es) p = Some m"
proof (induction es arbitrary: st)
  case Nil
  then show ?case by (simp add: proc_run_def)
next
  case (Cons e es)
  from Cons.prems have "cache (proc_step st e) p = Some m" by (rule proc_step_keeps_cache)
  with Cons.IH show ?case by (simp add: proc_run_def)
qed

lemma snap_run_state: "fst (foldl snap_step (st, snap) es) = proc_run st es"
proof (induction es arbitrary: st snap)
  case Nil
  then show ?case by (simp add: proc_run_def)
next
  case (Cons e es)
  then show ?case by (simp add: proc_run_def)
qed

lemma snap_step_unchanged:
  "cache (proc_step st e) = cache st \<Longrightarrow> snd (snap_step (st, snap) e) = snap"
  by (auto simp: fun_eq_iff)

lemma snap_step_coherent:
  assumes "cache_coherent snap (cache st)" and "dom snap \<subseteq> dom (cache st)"
  shows "cache_coherent (snd (snap_step (st, snap) e)) (cache (proc_step st e)) \<and>
         dom (snd (snap_step (st, snap) e)) \<subseteq> dom (cache (proc_step st e))"
proof (cases e)
  case (Attribute f)
  consider "snd (attribute_ttgir_frame_up (files st) (cache st) f) = cache st"
    | q content where "cache st q = None" "open_file (files st) q = Inr content"
      "snd (attribute_ttgir_frame_up (files st) (cache st) f) =
         (cache st)(q \<mapsto> parse_location_mappings (read_lines content))"
    using attribute_cache_cases [of "files st" "cache st" f] by blast
  then show ?thesis
  proof cases
    case 1
    with Attribute have "snd (snap_step (st, snap) e) = snap" by (intro snap_step_unchanged) simp
    with 1 assms Attribute show ?thesis by simp
  next
    case 2
    then have "snd (snap_step (st, snap) e) = snap(q \<mapsto> content)"
      using Attribute by (auto simp: fun_eq_iff)
    with 2 assms Attribute show ?thesis by (auto simp: cache_coherent_def)
  qed
next
  case (WriteFile q content)
  then have "snd (snap_step (st, snap) e) = snap" by (intro snap_step_unchanged) simp
  with assms WriteFile show ?thesis by simp
qed

lemma cached_contents_coherent:
  "cache_coherent (cached_contents st0 es) (cache (proc_run st0 es)) \<and>
   dom (cached_contents st0 es) \<subseteq> dom (cache (proc_run st0 es))"
  if "cache st0 = Map.empty"
proof -
  have "cache_coherent (snd (foldl snap_step (st, snap) es)) (cache (fst (foldl snap_step (st, snap) es))) \<and>
        dom (snd (foldl snap_step (st, snap) es)) \<subseteq> dom (cache (fst (foldl snap_step (st, snap) es)))"
    if "cache_coherent snap (cache st)" "dom snap \<subseteq> dom (cache st)" for st snap
    using that
  proof (induction es arbitrary: st snap)
    case Nil
    then show ?case by simp
  next
    case (Cons e es)
    from snap_step_coherent [OF Cons.prems] have
      "cache_coherent (snd (snap_step (st, snap) e)) (cache (proc_step st e))"
      "dom (snd (snap_step (st, snap) e)) \<subseteq> dom (cache (proc_step st e))" by auto
    with Cons.IH [where st = "proc_step st e" and snap = "snd (snap_step (st, snap) e)"] show ?case by simp
  qed
  from this [where st = st0 and snap = Map.empty] \<open>cache st0 = Map.empty\<close> show ?thesis
    by (simp add: cached_contents_def snap_run_state cache_coherent_def)
qed

subsection \<open>The system's properties\<close>

text \<open>
  C1. Refinement: in every session (any sequence of attributions against
  fixed files, starting from the empty cache) a call returns exactly what the
  uncached specification \<open>attribute_spec\<close> computes, exceptions included.
\<close>

theorem session_refines_spec:
  assumes "session fs c"
  shows "fst (attribute_ttgir_frame_up fs c f) = attribute_spec fs f"
proof -
  from assms have "cache_coherent (file_text fs) c" by (rule session_coherent)
  then show ?thesis by (rule attribute_eq_spec)
qed

theorem session_refines_spec_witness:
  "session [''k.ttgir'' \<mapsto> text_file ''#loc1 = loc(a)\<newline>%0 = op loc(#loc1)\<newline>'']
     (snd (attribute_ttgir_frame_up [''k.ttgir'' \<mapsto> text_file ''#loc1 = loc(a)\<newline>%0 = op loc(#loc1)\<newline>'']
        Map.empty ''k.ttgir:f@2'')) \<and>
   fst (attribute_ttgir_frame_up [''k.ttgir'' \<mapsto> text_file ''#loc1 = loc(a)\<newline>%0 = op loc(#loc1)\<newline>'']
     (snd (attribute_ttgir_frame_up [''k.ttgir'' \<mapsto> text_file ''#loc1 = loc(a)\<newline>%0 = op loc(#loc1)\<newline>'']
        Map.empty ''k.ttgir:f@2'')) ''k.ttgir:f@1'') =
   attribute_spec [''k.ttgir'' \<mapsto> text_file ''#loc1 = loc(a)\<newline>%0 = op loc(#loc1)\<newline>''] ''k.ttgir:f@1''"
proof -
  have h: "session [''k.ttgir'' \<mapsto> text_file ''#loc1 = loc(a)\<newline>%0 = op loc(#loc1)\<newline>'']
     (snd (attribute_ttgir_frame_up [''k.ttgir'' \<mapsto> text_file ''#loc1 = loc(a)\<newline>%0 = op loc(#loc1)\<newline>'']
        Map.empty ''k.ttgir:f@2''))"
    by (rule session.attribute [OF session_empty])
  show ?thesis using h session_refines_spec [OF h] by simp
qed

text \<open>
  C2. Cache invariant: in every session, each cached entry belongs to an
  existing file whose path contains \<open>ttgir\<close>, and is the table parsed from
  that file's content.
\<close>

theorem session_cache_invariant:
  assumes "session fs c" and "p \<in> dom c"
  shows "sublist ''ttgir'' p \<and> file_text fs p \<noteq> None \<and>
         c p = map_option (\<lambda>content. parse_location_mappings (read_lines content)) (file_text fs p)"
proof -
  have coh: "cache_coherent (file_text fs) c" using assms(1) by (rule session_coherent)
  with assms(2) have eq: "c p = map_option (\<lambda>content. parse_location_mappings (read_lines content)) (file_text fs p)"
    by (simp add: cache_coherent_def)
  moreover have "sublist ''ttgir'' p" using session_ttgir [OF assms(1)] assms(2) by blast
  moreover have "file_text fs p \<noteq> None"
  proof
    assume "file_text fs p = None"
    with eq have "c p = None" by simp
    with assms(2) show False by auto
  qed
  ultimately show ?thesis by blast
qed

theorem session_cache_invariant_witness:
  "session [''k.ttgir'' \<mapsto> text_file ''#loc1 = loc(a)\<newline>'']
     (snd (attribute_ttgir_frame_up [''k.ttgir'' \<mapsto> text_file ''#loc1 = loc(a)\<newline>''] Map.empty ''k.ttgir:f@1'')) \<and>
   ''k.ttgir'' \<in> dom (snd (attribute_ttgir_frame_up [''k.ttgir'' \<mapsto> text_file ''#loc1 = loc(a)\<newline>''] Map.empty ''k.ttgir:f@1'')) \<and>
   sublist ''ttgir'' ''k.ttgir''"
proof -
  have h1: "session [''k.ttgir'' \<mapsto> text_file ''#loc1 = loc(a)\<newline>'']
     (snd (attribute_ttgir_frame_up [''k.ttgir'' \<mapsto> text_file ''#loc1 = loc(a)\<newline>''] Map.empty ''k.ttgir:f@1''))"
    by (rule session.attribute [OF session_empty])
  have e: "extract_file_and_line ''k.ttgir:f@1'' = Some (''k.ttgir'', 1)" by code_simp
  have t: "sublist ''ttgir'' ''k.ttgir''" by code_simp
  have h2: "''k.ttgir'' \<in> dom (snd (attribute_ttgir_frame_up [''k.ttgir'' \<mapsto> text_file ''#loc1 = loc(a)\<newline>'']
      Map.empty ''k.ttgir:f@1''))"
    using attribute_caches_file [where fs = "[''k.ttgir'' \<mapsto> text_file ''#loc1 = loc(a)\<newline>'']" and c = Map.empty,
        OF e t] by auto
  show ?thesis using h1 h2 session_cache_invariant [OF h1 h2] by blast
qed

text \<open>
  C3. The result for a line in range: in every session, a frame naming an
  existing \<open>ttgir\<close> file and a line \<open>1 \<le> n \<le>\<close> its length is attributed to
  the formatted table entry of the line's first marker (\<open>unknown\<close> when the
  table lacks it, \<open>No location found\<close> when the line has none).  The witness is
  the design's first example: \<open>#loc1 = loc("file.py":10:4)\<close> and a line
  carrying \<open>loc(#loc1)\<close> give \<open>file.py_@10_4\<close>.
\<close>

theorem attribute_in_range:
  assumes "session fs c" and "extract_file_and_line f = Some (p, n)" and "sublist ''ttgir'' p"
    and "open_file fs p = Inr content" and "1 \<le> n" and "n \<le> length (read_lines content)"
  shows "fst (attribute_ttgir_frame_up fs c f) =
           Inr (format_location
             (case extract_loc_reference (strip (read_lines content ! (n - 1))) of
                None \<Rightarrow> ''No location found''
              | Some r \<Rightarrow> dict_get (parse_location_mappings (read_lines content)) r ''unknown''))"
proof -
  have "cache_coherent (file_text fs) c" using assms(1) by (rule session_coherent)
  then have eq: "fst (attribute_ttgir_frame_up fs c f) = attribute_spec fs f" by (rule attribute_eq_spec)
  have "p \<noteq> []" using extract_file_and_line_prefix [OF assms(2)] by simp
  moreover have "find_line 1 n (read_lines content) = Some (strip (read_lines content ! (n - 1)))"
    using assms(5,6) by (simp add: find_line_nth)
  ultimately have "attribute_spec fs f =
           Inr (format_location
             (case extract_loc_reference (strip (read_lines content ! (n - 1))) of
                None \<Rightarrow> ''No location found''
              | Some r \<Rightarrow> dict_get (parse_location_mappings (read_lines content)) r ''unknown''))"
    using assms(2-4) by (simp add: attribute_spec_def attribute_spec_from_def split: option.split)
  with eq show ?thesis by simp
qed

theorem attribute_in_range_witness:
  "session [''/tmp/k.ttgir'' \<mapsto> text_file ''#loc1 = loc(\"file.py\":10:4)\<newline>%0 = arith.constant 0 : i32 loc(#loc1)\<newline>'']
     Map.empty \<and>
   extract_file_and_line ''/tmp/k.ttgir:kernel@2'' = Some (''/tmp/k.ttgir'', 2) \<and>
   sublist ''ttgir'' ''/tmp/k.ttgir'' \<and>
   fst (attribute_ttgir_frame_up
     [''/tmp/k.ttgir'' \<mapsto> text_file ''#loc1 = loc(\"file.py\":10:4)\<newline>%0 = arith.constant 0 : i32 loc(#loc1)\<newline>'']
     Map.empty ''/tmp/k.ttgir:kernel@2'') = Inr ''file.py_@10_4''"
proof -
  let ?txt = "''#loc1 = loc(\"file.py\":10:4)\<newline>%0 = arith.constant 0 : i32 loc(#loc1)\<newline>''"
  have h1: "session [''/tmp/k.ttgir'' \<mapsto> text_file ?txt] Map.empty" by (rule session_empty)
  have h2: "extract_file_and_line ''/tmp/k.ttgir:kernel@2'' = Some (''/tmp/k.ttgir'', 2)" by code_simp
  have h3: "sublist ''ttgir'' ''/tmp/k.ttgir''" by code_simp
  have h4: "open_file [''/tmp/k.ttgir'' \<mapsto> text_file ?txt] ''/tmp/k.ttgir'' = Inr ?txt" by simp
  have h5: "1 \<le> (2::nat)" by simp
  have h6: "2 \<le> length (read_lines ?txt)" by code_simp
  have v: "format_location
             (case extract_loc_reference (strip (read_lines ?txt ! (2 - 1))) of
                None \<Rightarrow> ''No location found''
              | Some r \<Rightarrow> dict_get (parse_location_mappings (read_lines ?txt)) r ''unknown'') =
           ''file.py_@10_4''"
    by code_simp
  have r: "fst (attribute_ttgir_frame_up [''/tmp/k.ttgir'' \<mapsto> text_file ?txt] Map.empty ''/tmp/k.ttgir:kernel@2'') =
           Inr ''file.py_@10_4''"
    using attribute_in_range [OF h1 h2 h3 h4 h5 h6] unfolding v .
  show ?thesis using h1 h2 h3 r by blast
qed

text \<open>
  C8. A file is parsed once: after a call on a frame of an existing
  \<open>ttgir\<close> file, a second call on any frame of the same file leaves the cache
  as the first call left it, and \<open>load_location_map\<close> then answers from the
  cache without reading the file: its result is the same for every file
  system, one where the file has been deleted included.
\<close>

theorem attribute_parses_once:
  assumes "extract_file_and_line f1 = Some (p, n1)" and "extract_file_and_line f2 = Some (p, n2)"
    and "sublist ''ttgir'' p" and "file_text fs p \<noteq> None"
  shows "snd (attribute_ttgir_frame_up fs (snd (attribute_ttgir_frame_up fs c f1)) f2) =
         snd (attribute_ttgir_frame_up fs c f1) \<and>
         (\<exists>m. load_location_map fs' (snd (attribute_ttgir_frame_up fs c f1)) p =
                Inr (m, snd (attribute_ttgir_frame_up fs c f1)))"
proof -
  let ?c1 = "snd (attribute_ttgir_frame_up fs c f1)"
  have c1: "?c1 p \<noteq> None" using assms(1,3,4) by (rule attribute_caches_file)
  then have "?c1 = snd (attribute_ttgir_frame_up fs ?c1 f2)"
    using attribute_cache_cases [of fs ?c1 f2] assms(2) by auto
  moreover from c1 have "\<exists>m. load_location_map fs' ?c1 p = Inr (m, ?c1)"
    by (auto simp: load_location_map_def)
  ultimately show ?thesis by simp
qed

theorem attribute_parses_once_witness:
  "extract_file_and_line ''k.ttgir:f@1'' = Some (''k.ttgir'', 1) \<and>
   extract_file_and_line ''k.ttgir:g@9'' = Some (''k.ttgir'', 9) \<and>
   sublist ''ttgir'' ''k.ttgir'' \<and> file_text [''k.ttgir'' \<mapsto> text_file ''#loc1 = loc(a)\<newline>''] ''k.ttgir'' \<noteq> None \<and>
   snd (attribute_ttgir_frame_up [''k.ttgir'' \<mapsto> text_file ''#loc1 = loc(a)\<newline>'']
     (snd (attribute_ttgir_frame_up [''k.ttgir'' \<mapsto> text_file ''#loc1 = loc(a)\<newline>''] Map.empty ''k.ttgir:f@1''))
     ''k.ttgir:g@9'') =
   snd (attribute_ttgir_frame_up [''k.ttgir'' \<mapsto> text_file ''#loc1 = loc(a)\<newline>''] Map.empty ''k.ttgir:f@1'') \<and>
   (\<exists>m. load_location_map Map.empty
          (snd (attribute_ttgir_frame_up [''k.ttgir'' \<mapsto> text_file ''#loc1 = loc(a)\<newline>''] Map.empty ''k.ttgir:f@1''))
          ''k.ttgir'' =
        Inr (m, snd (attribute_ttgir_frame_up [''k.ttgir'' \<mapsto> text_file ''#loc1 = loc(a)\<newline>''] Map.empty ''k.ttgir:f@1'')))"
proof -
  have e1: "extract_file_and_line ''k.ttgir:f@1'' = Some (''k.ttgir'', 1)" by code_simp
  have e2: "extract_file_and_line ''k.ttgir:g@9'' = Some (''k.ttgir'', 9)" by code_simp
  have t: "sublist ''ttgir'' ''k.ttgir''" by code_simp
  have fs: "file_text [''k.ttgir'' \<mapsto> text_file ''#loc1 = loc(a)\<newline>''] ''k.ttgir'' \<noteq> None" by simp
  show ?thesis
    using e1 e2 t fs attribute_parses_once [where fs = "[''k.ttgir'' \<mapsto> text_file ''#loc1 = loc(a)\<newline>'']"
        and c = Map.empty and fs' = Map.empty, OF e1 e2 t fs]
    by simp
qed

text \<open>
  C16. Whatever the interleaving of attributions and writes to the files, the
  cache only ever holds tables of paths that contain \<open>ttgir\<close>.
\<close>

theorem process_cache_ttgir:
  assumes "process st" and "p \<in> dom (cache st)"
  shows "sublist ''ttgir'' p"
  using assms
proof (induction rule: process.induct)
  case (start fs)
  then show ?case by (simp add: location_map_cache_init_def)
next
  case (step st e)
  show ?case
  proof (cases e)
    case (Attribute f)
    with step.prems have "snd (attribute_ttgir_frame_up (files st) (cache st) f) p \<noteq> None"
      by auto
    then have "cache st p \<noteq> None \<or> sublist ''ttgir'' p" by (rule attribute_cache_ttgir)
    with step.IH show ?thesis by auto
  next
    case (WriteFile q content)
    with step show ?thesis by simp
  qed
qed

theorem process_cache_ttgir_witness:
  "process (proc_run \<lparr>files = [''k.ttgir'' \<mapsto> text_file ''#loc1 = loc(a)\<newline>''], cache = Map.empty\<rparr>
     [Attribute ''k.ttgir:f@1'', WriteFile ''k.ttgir'' '''']) \<and>
   ''k.ttgir'' \<in> dom (cache (proc_run \<lparr>files = [''k.ttgir'' \<mapsto> text_file ''#loc1 = loc(a)\<newline>''], cache = Map.empty\<rparr>
     [Attribute ''k.ttgir:f@1'', WriteFile ''k.ttgir'' ''''])) \<and>
   sublist ''ttgir'' ''k.ttgir''"
proof -
  let ?st = "proc_run \<lparr>files = [''k.ttgir'' \<mapsto> text_file ''#loc1 = loc(a)\<newline>''], cache = Map.empty\<rparr>
     [Attribute ''k.ttgir:f@1'', WriteFile ''k.ttgir'' '''']"
  have h1: "process ?st" by (rule process_run [OF process_empty])
  have e: "extract_file_and_line ''k.ttgir:f@1'' = Some (''k.ttgir'', 1)" by code_simp
  have t: "sublist ''ttgir'' ''k.ttgir''" by code_simp
  have "snd (attribute_ttgir_frame_up [''k.ttgir'' \<mapsto> text_file ''#loc1 = loc(a)\<newline>''] Map.empty ''k.ttgir:f@1'')
          ''k.ttgir'' \<noteq> None"
    using attribute_caches_file [where fs = "[''k.ttgir'' \<mapsto> text_file ''#loc1 = loc(a)\<newline>'']" and c = Map.empty,
        OF e t] by simp
  then have h2: "''k.ttgir'' \<in> dom (cache ?st)" by (auto simp: proc_run_def)
  show ?thesis using h1 h2 process_cache_ttgir [OF h1 h2] by blast
qed

text \<open>
  C27. Liveness of the cache: in any run of the process, once a frame of a
  \<open>ttgir\<close> file that exists at that moment has been attributed, the file's
  table is in the cache, and stays there unchanged in every later state,
  whatever attributions and file writes follow.
\<close>

theorem attribution_eventually_cached:
  assumes "extract_file_and_line f = Some (p, n)" and "sublist ''ttgir'' p"
    and "file_text (files (proc_run st es1)) p \<noteq> None"
  shows "\<exists>m. \<forall>es2. cache (proc_run st (es1 @ Attribute f # es2)) p = Some m"
proof -
  let ?st1 = "proc_step (proc_run st es1) (Attribute f)"
  have "cache ?st1 p \<noteq> None"
    using attribute_caches_file [where fs = "files (proc_run st es1)" and c = "cache (proc_run st es1)",
        OF assms(1,2,3)] by simp
  then obtain m where m: "cache ?st1 p = Some m" by blast
  have "cache (proc_run st (es1 @ Attribute f # es2)) p = Some m" for es2
    using proc_run_keeps_cache [OF m, of es2] by (simp add: proc_run_def)
  then show ?thesis by blast
qed

theorem attribution_eventually_cached_witness:
  "extract_file_and_line ''k.ttgir:f@1'' = Some (''k.ttgir'', 1) \<and> sublist ''ttgir'' ''k.ttgir'' \<and>
   file_text (files (proc_run \<lparr>files = [''k.ttgir'' \<mapsto> text_file ''#loc1 = loc(a)\<newline>''], cache = Map.empty\<rparr> []))
     ''k.ttgir'' \<noteq> None \<and>
   (\<exists>m. \<forall>es2. cache (proc_run \<lparr>files = [''k.ttgir'' \<mapsto> text_file ''#loc1 = loc(a)\<newline>''], cache = Map.empty\<rparr>
      ([] @ Attribute ''k.ttgir:f@1'' # es2)) ''k.ttgir'' = Some m)"
proof -
  have e: "extract_file_and_line ''k.ttgir:f@1'' = Some (''k.ttgir'', 1)" by code_simp
  have t: "sublist ''ttgir'' ''k.ttgir''" by code_simp
  have fs: "file_text (files (proc_run \<lparr>files = [''k.ttgir'' \<mapsto> text_file ''#loc1 = loc(a)\<newline>''], cache = Map.empty\<rparr> []))
      ''k.ttgir'' \<noteq> None" by (simp add: proc_run_def)
  show ?thesis using e t fs attribution_eventually_cached [OF e t fs] by blast
qed

text \<open>
  C30. Refinement with writes: in every run of attributions and file writes
  from the module's initial state, a call returns what the uncached
  specification computes on the current files, except that the table of a
  cached file is parsed from the content the file had when its table was
  stored (\<open>cached_contents\<close>), not from its current content.
\<close>

theorem process_refines_snapshot_spec:
  "fst (attribute_ttgir_frame_up (files (proc_run \<lparr>files = fs, cache = location_map_cache_init\<rparr> es))
                                 (cache (proc_run \<lparr>files = fs, cache = location_map_cache_init\<rparr> es)) f) =
   attribute_spec_from (files (proc_run \<lparr>files = fs, cache = location_map_cache_init\<rparr> es))
     (cached_contents \<lparr>files = fs, cache = location_map_cache_init\<rparr> es) f"
proof -
  have "cache \<lparr>files = fs, cache = location_map_cache_init\<rparr> = Map.empty"
    by (simp add: location_map_cache_init_def)
  then have "cache_coherent (cached_contents \<lparr>files = fs, cache = location_map_cache_init\<rparr> es)
               (cache (proc_run \<lparr>files = fs, cache = location_map_cache_init\<rparr> es)) \<and>
             dom (cached_contents \<lparr>files = fs, cache = location_map_cache_init\<rparr> es) \<subseteq>
               dom (cache (proc_run \<lparr>files = fs, cache = location_map_cache_init\<rparr> es))"
    by (rule cached_contents_coherent)
  then show ?thesis by (intro attribute_eq_spec_from) auto
qed

end
